theory Spec2Isabelle
  imports Complex_Main "HOL-Library.Sublist"
begin

section \<open>Strings of the host language\<close>

text \<open>
  A source string is modelled as a \<^typ>\<open>string\<close>: a list of 8-bit characters, read as the
  code units below 256. \<open>String.prototype.trim\<close> strips white space and line terminators
  at both ends; in this range these are TAB, LF, VT, FF, CR, SPACE and NBSP.
\<close>

definition isWhiteSpace :: "char \<Rightarrow> bool" where
  "isWhiteSpace c =
     (c \<in> set [CHR 0x09, CHR 0x0A, CHR 0x0B, CHR 0x0C, CHR 0x0D, CHR 0x20, CHR 0xA0])"

definition trim :: "string \<Rightarrow> string" where
  "trim s = rev (dropWhile isWhiteSpace (rev (dropWhile isWhiteSpace s)))"

definition startsWith :: "string \<Rightarrow> string \<Rightarrow> bool" where
  "startsWith s p = (take (length p) s = p)"

definition endsWith :: "string \<Rightarrow> string \<Rightarrow> bool" where
  "endsWith s p = (length p \<le> length s \<and> drop (length s - length p) s = p)"

text \<open>
  \<open>s.replace(pat, rep)\<close> with a string pattern replaces the first occurrence of
  \<open>pat\<close> only (the replacement used by the source is the empty string, which has no
  \<open>$\<close> patterns).
\<close>

fun replaceFirst :: "string \<Rightarrow> string \<Rightarrow> string \<Rightarrow> string" where
  "replaceFirst pat rep [] = (if pat = [] then rep else [])"
| "replaceFirst pat rep (c # cs) =
     (if startsWith (c # cs) pat then rep @ drop (length pat) (c # cs)
      else c # replaceFirst pat rep cs)"

section \<open>Review classification (\<open>reviewer-prompts.ts\<close>)\<close>

record review_result =
  approved :: bool
  feedback :: string

definition noSpecificFeedback :: string where
  "noSpecificFeedback = ''Reviewer requested changes but did not provide specific feedback.''"

definition unableToParse :: string where
  "unableToParse = ''Unable to parse reviewer response.''"

text \<open>\<open>a || b\<close> on strings: the empty string is falsy.\<close>

definition orElse :: "string \<Rightarrow> string \<Rightarrow> string" where
  "orElse a b = (if a = [] then b else a)"

definition parseReviewResult :: "string \<Rightarrow> review_result" where
  "parseReviewResult response =
     (let trimmed = trim response in
      if startsWith trimmed ''APPROVED'' then \<lparr>approved = True, feedback = ''''\<rparr>
      else if startsWith trimmed ''NEEDS_REVISION'' then
        (let fb = trim (replaceFirst ''NEEDS_REVISION'' '''' trimmed) in
         \<lparr>approved = False, feedback = orElse fb noSpecificFeedback\<rparr>)
      else \<lparr>approved = False, feedback = orElse trimmed unableToParse\<rparr>)"

section \<open>Artifacts, agents and stages (\<open>spec.types.ts\<close>, \<open>agent.types.ts\<close>)\<close>

datatype IRType =
  Contract | Module | Infrastructure | Data | Decisions | Tasks
  | Types | Interface | Function | Events | Tests | Pipeline

datatype AgentType = Product | Architect | Scrum | Developer | Tester | DevOps

fun irTypeName :: "IRType \<Rightarrow> string" where
  "irTypeName Contract = ''contract''"
| "irTypeName Module = ''module''"
| "irTypeName Infrastructure = ''infrastructure''"
| "irTypeName Data = ''data''"
| "irTypeName Decisions = ''decisions''"
| "irTypeName Tasks = ''tasks''"
| "irTypeName Types = ''types''"
| "irTypeName Interface = ''interface''"
| "irTypeName Function = ''function''"
| "irTypeName Events = ''events''"
| "irTypeName Tests = ''tests''"
| "irTypeName Pipeline = ''pipeline''"

definition AGENT_ORDER :: "AgentType list" where
  "AGENT_ORDER = [Product, Architect, Scrum, Developer, Tester, DevOps]"

fun AGENT_OUTPUTS :: "AgentType \<Rightarrow> IRType list" where
  "AGENT_OUTPUTS Product = [Contract]"
| "AGENT_OUTPUTS Architect = [Module, Infrastructure, Data, Decisions]"
| "AGENT_OUTPUTS Scrum = [Tasks]"
| "AGENT_OUTPUTS Developer = [Types, Events, Interface, Function]"
| "AGENT_OUTPUTS Tester = [Tests]"
| "AGENT_OUTPUTS DevOps = [Pipeline]"

text \<open>
  \<open>getOutputIRTypes\<close> of the agent classes. The architect, scrum, developer and devops
  classes return the literals below; the product and tester classes are declared in files
  outside the sources at hand, and their lists are the entries of \<open>AGENT_OUTPUTS\<close>.
\<close>

fun getOutputIRTypes :: "AgentType \<Rightarrow> IRType list" where
  "getOutputIRTypes Architect = [Module, Infrastructure, Data, Decisions]"
| "getOutputIRTypes Scrum = [Tasks]"
| "getOutputIRTypes Developer = [Types, Events, Interface, Function]"
| "getOutputIRTypes DevOps = [Pipeline]"
| "getOutputIRTypes a = AGENT_OUTPUTS a"

text \<open>\<open>getIRTypeFileName\<close> and \<open>getIRTypeFilePath\<close>, called without a component name.\<close>

definition getIRTypeFileName :: "IRType \<Rightarrow> string" where
  "getIRTypeFileName t = irTypeName t @ ''.spec''"

definition getIRTypeFilePath :: "IRType \<Rightarrow> string" where
  "getIRTypeFilePath t =
     (if t = Interface then ''interfaces/'' @ getIRTypeFileName t
      else if t = Function then ''functions/'' @ getIRTypeFileName t
      else getIRTypeFileName t)"

text \<open>A \<open>Date\<close> is its time value in milliseconds since the epoch.\<close>

record SpecArtifact =
  irType :: IRType
  fileName :: string
  filePath :: string
  content :: string
  version :: string
  createdBy :: AgentType
  createdAt :: int

record FeedbackEntry =
  cycle :: int
  artifactType :: IRType
  reviewerFeedback :: string
  executorResponse :: string
  timestamp :: int

text \<open>
  A \<open>Map\<close> keeps its keys in insertion order: an association list with distinct keys.
  \<open>set\<close> on a present key replaces the value in place, on a new key appends.
  The values of \<open>previousArtifacts\<close> are typed \<open>SpecArtifact\<close>, but the run-time value
  can be \<open>null\<close> (see \<open>generateWithFeedbackCycle\<close>), hence the \<^typ>\<open>SpecArtifact option\<close>.
\<close>

fun mapSet :: "'k \<Rightarrow> 'v \<Rightarrow> ('k \<times> 'v) list \<Rightarrow> ('k \<times> 'v) list" where
  "mapSet k v [] = [(k, v)]"
| "mapSet k v ((k', v') # m) =
     (if k = k' then (k, v) # m else (k', v') # mapSet k v m)"

definition newMap :: "('k \<times> 'v) list \<Rightarrow> ('k \<times> 'v) list" where
  "newMap entries = fold (\<lambda>(k, v) m. mapSet k v m) entries []"

record AgentContext =
  sessionId :: string
  moduleName :: string
  userPrompt :: string
  previousArtifacts :: "(IRType \<times> SpecArtifact option) list"
  feedbackHistory :: "FeedbackEntry list"

record FeedbackCycleResult =
  artifact :: "SpecArtifact option"
  cyclesUsed :: int
  cycleApproved :: bool
  cycleFeedbackHistory :: "FeedbackEntry list"

datatype run_error =
  Thrown string
  | NullArtifact
  | UnknownAgentType

record AgentResult =
  artifacts :: "SpecArtifact option list"
  success :: bool
  error :: "run_error option"

section \<open>The model client as seen by the agents\<close>

text \<open>
  A request is kept as the arguments its prompt is built from: \<open>buildExecutorPrompt\<close>
  (agent, context, artifact type, feedback history) for the executor, sent with the agent's
  system prompt, and \<open>buildReviewerPrompt\<close> (artifact type, candidate content, context,
  feedback history) for the reviewer.
\<close>

datatype llm_request =
  ExecutorRequest AgentType AgentContext IRType "FeedbackEntry list"
  | ReviewerRequest IRType string AgentContext "FeedbackEntry list"

fun target :: "llm_request \<Rightarrow> IRType" where
  "target (ExecutorRequest _ _ t _) = t"
| "target (ReviewerRequest t _ _ _) = t"

fun isExecutor :: "llm_request \<Rightarrow> bool" where
  "isExecutor (ExecutorRequest _ _ _ _) = True"
| "isExecutor (ReviewerRequest _ _ _ _) = False"

text \<open>
  The environment of a run: what \<open>llmClient.generate\<close> answers to the \<open>n\<close>-th call
  (counted from 0) with a given request, either a thrown error message or the response
  content, and what \<open>new Date()\<close> reads after \<open>n\<close> calls. The calls issued so far
  are logged in order. The progress callbacks are observers and are not part of the model.
\<close>

record env =
  llm :: "nat \<Rightarrow> llm_request \<Rightarrow> string + string"
  clock :: "nat \<Rightarrow> int"

definition generate :: "env \<Rightarrow> llm_request \<Rightarrow> llm_request list
    \<Rightarrow> (string + string) \<times> llm_request list" where
  "generate E req calls = (llm E (length calls) req, calls @ [req])"

section \<open>The feedback cycle (\<open>base-agent.ts\<close>)\<close>

text \<open>The class \<open>\\w\<close> of regular expressions: ASCII letters, digits and the underscore.\<close>

definition isWordChar :: "char \<Rightarrow> bool" where
  "isWordChar c =
     (c \<in> set ''ABCDEFGHIJKLMNOPQRSTUVWXYZabcdefghijklmnopqrstuvwxyz0123456789_'')"

definition newline :: char where
  "newline = CHR 0x0A"

definition fence :: string where
  "fence = [CHR 0x60, CHR 0x60, CHR 0x60]"

text \<open>The regular expression tail \<open>\\n?\<close> at the start of the rest: one optional line feed.\<close>

fun dropNewline :: "string \<Rightarrow> string" where
  "dropNewline [] = []"
| "dropNewline (c # cs) = (if c = newline then cs else c # cs)"

text \<open>
  \<open>replace(/\\n?```$/, '')\<close> on a string that ends with the fence: the fence goes, and
  a line feed right before it.
\<close>

definition dropClosingFence :: "string \<Rightarrow> string" where
  "dropClosingFence s =
     (let body = take (length s - 3) s in
      if body \<noteq> [] \<and> last body = newline then butlast body else body)"

definition cleanSpecContent :: "string \<Rightarrow> string" where
  "cleanSpecContent raw =
     (let cleaned = trim raw;
          opened =
            (if startsWith cleaned (fence @ ''spec'') then dropNewline (drop 7 cleaned)
             else if startsWith cleaned fence then dropNewline (dropWhile isWordChar (drop 3 cleaned))
             else cleaned);
          closed = (if endsWith opened fence then dropClosingFence opened else opened)
      in trim closed)"

definition mkArtifact :: "AgentType \<Rightarrow> IRType \<Rightarrow> string \<Rightarrow> int \<Rightarrow> SpecArtifact" where
  "mkArtifact ag t c now =
     \<lparr>irType = t, fileName = irTypeName t @ ''.spec.ir'', filePath = getIRTypeFilePath t,
      content = c, version = ''1.0.0'', createdBy = ag, createdAt = now\<rparr>"

text \<open>
  The \<open>for\<close> loop of \<open>generateWithFeedbackCycle\<close>, entered at \<open>cycle\<close> with the
  feedback history and the last artifact of the cycles before. An error thrown by the
  client leaves the loop and the function.
\<close>

function cycleLoop :: "env \<Rightarrow> AgentType \<Rightarrow> int \<Rightarrow> AgentContext \<Rightarrow> IRType \<Rightarrow> int
    \<Rightarrow> FeedbackEntry list \<Rightarrow> SpecArtifact option \<Rightarrow> llm_request list
    \<Rightarrow> (run_error + FeedbackCycleResult) \<times> llm_request list" where
  "cycleLoop E ag maxFeedbackCycles ctx t cyc history art calls =
     (if cyc \<le> maxFeedbackCycles then
        (case generate E (ExecutorRequest ag ctx t history) calls of
           (Inl e, calls1) \<Rightarrow> (Inl (Thrown e), calls1)
         | (Inr executorText, calls1) \<Rightarrow>
             (let c = cleanSpecContent executorText;
                  art1 = mkArtifact ag t c (clock E (length calls1))
              in case generate E (ReviewerRequest t c ctx history) calls1 of
                   (Inl e, calls2) \<Rightarrow> (Inl (Thrown e), calls2)
                 | (Inr reviewerText, calls2) \<Rightarrow>
                     (let reviewResult = parseReviewResult reviewerText in
                      if approved reviewResult then
                        (Inr \<lparr>artifact = Some art1, cyclesUsed = cyc, cycleApproved = True,
                              cycleFeedbackHistory = history\<rparr>, calls2)
                      else
                        cycleLoop E ag maxFeedbackCycles ctx t (cyc + 1)
                          (history @ [\<lparr>cycle = cyc, artifactType = t,
                                        reviewerFeedback = feedback reviewResult,
                                        executorResponse = c,
                                        timestamp = clock E (length calls2)\<rparr>])
                          (Some art1) calls2)))
      else
        (Inr \<lparr>artifact = art, cyclesUsed = maxFeedbackCycles, cycleApproved = False,
              cycleFeedbackHistory = history\<rparr>, calls))"
  by pat_completeness auto
termination
  by (relation "measure (\<lambda>(E, ag, mx, ctx, t, cyc, history, art, calls). nat (mx + 1 - cyc))") auto

definition generateWithFeedbackCycle :: "env \<Rightarrow> AgentType \<Rightarrow> int \<Rightarrow> AgentContext \<Rightarrow> IRType
    \<Rightarrow> llm_request list \<Rightarrow> (run_error + FeedbackCycleResult) \<times> llm_request list" where
  "generateWithFeedbackCycle E ag maxFeedbackCycles ctx t calls =
     cycleLoop E ag maxFeedbackCycles ctx t 1 [] None calls"

section \<open>A stage (\<open>BaseAgent.execute\<close>)\<close>

text \<open>
  The loop over the output types of the agent. Each result of the feedback cycle is pushed
  and set in the shared context, whatever its \<open>approved\<close> flag says; an error thrown by
  the cycle is caught and turns into a failed result that keeps the artifacts pushed so far.
  The context is returned too, as the object is shared with the caller.
\<close>

fun executeLoop :: "env \<Rightarrow> AgentType \<Rightarrow> int \<Rightarrow> AgentContext \<Rightarrow> IRType list
    \<Rightarrow> SpecArtifact option list \<Rightarrow> llm_request list
    \<Rightarrow> (AgentResult \<times> AgentContext) \<times> llm_request list" where
  "executeLoop E ag maxFeedbackCycles ctx [] arts calls =
     ((\<lparr>artifacts = arts, success = True, error = None\<rparr>, ctx), calls)"
| "executeLoop E ag maxFeedbackCycles ctx (t # ts) arts calls =
     (case generateWithFeedbackCycle E ag maxFeedbackCycles ctx t calls of
        (Inl e, calls1) \<Rightarrow> ((\<lparr>artifacts = arts, success = False, error = Some e\<rparr>, ctx), calls1)
      | (Inr result, calls1) \<Rightarrow>
          executeLoop E ag maxFeedbackCycles
            (ctx\<lparr>previousArtifacts := mapSet t (artifact result) (previousArtifacts ctx)\<rparr>)
            ts (arts @ [artifact result]) calls1)"

definition execute :: "env \<Rightarrow> AgentType \<Rightarrow> int \<Rightarrow> AgentContext \<Rightarrow> llm_request list
    \<Rightarrow> (AgentResult \<times> AgentContext) \<times> llm_request list" where
  "execute E ag maxFeedbackCycles ctx calls =
     executeLoop E ag maxFeedbackCycles ctx (getOutputIRTypes ag) [] calls"

section \<open>The pipeline (\<open>pipeline.ts\<close>)\<close>

record PipelineResult =
  pipelineSuccess :: bool
  pipelineArtifacts :: "SpecArtifact option list"
  pipelineError :: "run_error option"

text \<open>
  Lines 104 to 107: every artifact of the stage is pushed and then set under its own type.
  Reading the type of a \<open>null\<close> artifact throws, after the push.
\<close>

fun addArtifacts :: "SpecArtifact option list \<Rightarrow> SpecArtifact option list
    \<Rightarrow> (IRType \<times> SpecArtifact option) list
    \<Rightarrow> (run_error + unit) \<times> SpecArtifact option list \<times> (IRType \<times> SpecArtifact option) list" where
  "addArtifacts [] allArtifacts prev = (Inr (), allArtifacts, prev)"
| "addArtifacts (None # rest) allArtifacts prev = (Inl NullArtifact, allArtifacts @ [None], prev)"
| "addArtifacts (Some a # rest) allArtifacts prev =
     addArtifacts rest (allArtifacts @ [Some a]) (mapSet (irType a) (Some a) prev)"

text \<open>
  The loop over the stages from index \<open>i\<close>. \<open>createAgent\<close> is called outside the
  \<open>try\<close> block: below index 0 the agent type is \<open>undefined\<close> and its error leaves
  \<open>Pipeline.execute\<close> as an exception (the outer \<open>Inl\<close>). Everything thrown inside the
  \<open>try\<close> block becomes a failed result.
\<close>

function pipelineLoop :: "env \<Rightarrow> int \<Rightarrow> AgentContext \<Rightarrow> int \<Rightarrow> SpecArtifact option list
    \<Rightarrow> llm_request list \<Rightarrow> (run_error + PipelineResult) \<times> llm_request list" where
  "pipelineLoop E maxFeedbackCycles ctx i allArtifacts calls =
     (if i < int (length AGENT_ORDER) then
        (if i < 0 then (Inl UnknownAgentType, calls)
         else
           (case execute E (AGENT_ORDER ! nat i) maxFeedbackCycles ctx calls of
              ((result, ctx1), calls1) \<Rightarrow>
                if \<not> success result then
                  (Inr \<lparr>pipelineSuccess = False, pipelineArtifacts = allArtifacts,
                        pipelineError = error result\<rparr>, calls1)
                else
                  (case addArtifacts (artifacts result) allArtifacts (previousArtifacts ctx1) of
                     (Inl e, all1, prev1) \<Rightarrow>
                       (Inr \<lparr>pipelineSuccess = False, pipelineArtifacts = all1,
                             pipelineError = Some e\<rparr>, calls1)
                   | (Inr u, all1, prev1) \<Rightarrow>
                       pipelineLoop E maxFeedbackCycles (ctx1\<lparr>previousArtifacts := prev1\<rparr>)
                         (i + 1) all1 calls1)))
      else
        (Inr \<lparr>pipelineSuccess = True, pipelineArtifacts = allArtifacts, pipelineError = None\<rparr>,
         calls))"
  by pat_completeness auto
termination
  by (relation "measure (\<lambda>(E, mx, ctx, i, allArtifacts, calls). nat (int (length AGENT_ORDER) - i))") auto

text \<open>
  \<open>Pipeline.execute\<close>. The session id (time and random digits in the source) is an input.
  \<open>existingArtifacts\<close> is an optional \<open>Map\<close>; its values seed the result list in
  insertion order and a copy of it seeds the context.
\<close>

definition Pipeline_execute :: "env \<Rightarrow> int \<Rightarrow> string \<Rightarrow> string \<Rightarrow> string \<Rightarrow> int
    \<Rightarrow> (IRType \<times> SpecArtifact) list option \<Rightarrow> llm_request list
    \<Rightarrow> (run_error + PipelineResult) \<times> llm_request list" where
  "Pipeline_execute E maxFeedbackCycles userPrompt' moduleName' sessionId' startFromStage
       existingArtifacts calls =
     (let allArtifacts = (case existingArtifacts of None \<Rightarrow> [] | Some m \<Rightarrow> map (Some \<circ> snd) m);
          previousArtifacts' =
            (case existingArtifacts of None \<Rightarrow> []
             | Some m \<Rightarrow> newMap (map (\<lambda>(k, a). (k, Some a)) m));
          context = \<lparr>sessionId = sessionId', moduleName = moduleName', userPrompt = userPrompt',
                     previousArtifacts = previousArtifacts', feedbackHistory = []\<rparr>
      in pipelineLoop E maxFeedbackCycles context startFromStage allArtifacts calls)"


section \<open>Notions used in the statements\<close>

definition generateCalls :: "llm_request list \<Rightarrow> nat" where
  "generateCalls cs = length (filter isExecutor cs)"

definition reviewCalls :: "llm_request list \<Rightarrow> nat" where
  "reviewCalls cs = length (filter (\<lambda>r. \<not> isExecutor r) cs)"

text \<open>The output types of all stages from index \<open>n\<close> on, in pipeline order.\<close>

definition outputsFrom :: "int \<Rightarrow> IRType list" where
  "outputsFrom n = concat (map getOutputIRTypes (drop (nat n) AGENT_ORDER))"


text \<open>
  The answer of the environment to the \<open>j\<close>-th call of a run that started after the calls
  \<open>calls\<close> and issued the calls \<open>new\<close>.
\<close>

definition response :: "env \<Rightarrow> llm_request list \<Rightarrow> llm_request list \<Rightarrow> nat \<Rightarrow> string + string" where
  "response E calls new j = llm E (length calls + j) (new ! j)"

text \<open>
  What one run of the cycle loop, entered at cycle \<open>c\<close> with last artifact \<open>a\<close>,
  leaves behind: its calls \<open>new\<close> and its outcome \<open>res\<close>.
\<close>

definition cycleInv :: "env \<Rightarrow> AgentType \<Rightarrow> int \<Rightarrow> IRType \<Rightarrow> int \<Rightarrow> SpecArtifact option
    \<Rightarrow> llm_request list \<Rightarrow> run_error + FeedbackCycleResult \<Rightarrow> llm_request list \<Rightarrow> bool" where
  "cycleInv E ag mx t c a calls res new \<longleftrightarrow>
     (\<forall>q \<in> set new. target q = t)
     \<and> generateCalls new \<le> nat (mx + 1 - c)
     \<and> reviewCalls new \<le> generateCalls new
     \<and> (\<forall>i < length new. isExecutor (new ! i) = even i)
     \<and> (\<forall>j. Suc j < length new \<longrightarrow>
           (\<exists>s. response E calls new j = Inr s \<and> (odd j \<longrightarrow> \<not> approved (parseReviewResult s))))
     \<and> (\<forall>e. res = Inl e \<longrightarrow>
           new \<noteq> [] \<and> (\<exists>m. response E calls new (length new - 1) = Inl m \<and> e = Thrown m))
     \<and> (\<forall>r. res = Inr r \<longrightarrow>
           reviewCalls new = generateCalls new \<and> length new = 2 * generateCalls new
           \<and> (if cycleApproved r then c \<le> cyclesUsed r \<and> cyclesUsed r \<le> mx
                 \<and> generateCalls new = nat (cyclesUsed r + 1 - c)
               else cyclesUsed r = mx \<and> generateCalls new = nat (mx + 1 - c))
           \<and> (if new = [] then artifact r = a \<and> \<not> cycleApproved r
               else (\<exists>raw. response E calls new (length new - 2) = Inr raw
                      \<and> artifact r = Some (mkArtifact ag t (cleanSpecContent raw)
                            (clock E (length calls + length new - 1))))
                  \<and> (\<exists>rt. response E calls new (length new - 1) = Inr rt
                      \<and> approved (parseReviewResult rt) = cycleApproved r)))"



text \<open>
  The artifact \<open>x\<close> holds the normalized answer to call number \<open>i\<close> of a run, a
  generate call for the type of \<open>x\<close>. When every artifact of a run uses up a budget of
  \<open>mx\<close> cycles, the last generate call for the \<open>j\<close>-th artifact (counted from 0) is
  call number \<open>2 mx (j + 1) - 2\<close>.
\<close>

definition holdsGeneration :: "env \<Rightarrow> llm_request list \<Rightarrow> llm_request list \<Rightarrow> nat
    \<Rightarrow> SpecArtifact \<Rightarrow> bool" where
  "holdsGeneration E calls new i x \<longleftrightarrow>
     i < length new \<and> isExecutor (new ! i) \<and> target (new ! i) = irType x
     \<and> (case response E calls new i of
          Inl e \<Rightarrow> False
        | Inr raw \<Rightarrow> content x = cleanSpecContent raw)"

definition lastGeneration :: "int \<Rightarrow> nat \<Rightarrow> nat" where
  "lastGeneration mx j = 2 * nat mx * (j + 1) - 2"

section \<open>Scripted environments and inputs for concrete runs\<close>

text \<open>A client that answers the \<open>n\<close>-th call with the \<open>n\<close>-th text of a script and throws after it.\<close>

definition scriptedEnv :: "string list \<Rightarrow> env" where
  "scriptedEnv answers =
     \<lparr>llm = (\<lambda>n req. if n < length answers then Inr (answers ! n) else Inl ''script exhausted''),
      clock = (\<lambda>n. int n)\<rparr>"

text \<open>A client whose executor answers \<open>draft\<close> and whose reviewer answers \<open>verdict\<close>, always.\<close>

definition constantEnv :: "string \<Rightarrow> string \<Rightarrow> env" where
  "constantEnv draft verdict =
     \<lparr>llm = (\<lambda>n req. if isExecutor req then Inr draft else Inr verdict), clock = (\<lambda>n. int n)\<rparr>"

text \<open>Scenario 1: two rejections, then an approval. Scenario 2: three rejections.\<close>

definition script3 :: "string list" where
  "script3 = [''draft 1'', ''NEEDS_REVISION shorter'', ''draft 2'', ''no verdict'',
              ''draft 3'', ''APPROVED.'']"

definition scriptRejected :: "string list" where
  "scriptRejected = [''draft 1'', ''NEEDS_REVISION a'', ''draft 2'', ''NEEDS_REVISION b'',
                     ''draft 3'', ''NEEDS_REVISION c'']"



definition emptyContext :: AgentContext where
  "emptyContext = \<lparr>sessionId = ''s'', moduleName = ''m'', userPrompt = ''p'',
     previousArtifacts = [], feedbackHistory = []\<rparr>"

section \<open>Backoff (\<open>rate-limiter.ts\<close>)\<close>

text \<open>
  A \<open>number\<close> is a double: \<open>NaN\<close>, one of the two infinities, or a finite value, kept
  as an exact rational. A product or sum whose exact value lies at or beyond \<open>2^1024\<close> in
  magnitude is the infinity of its sign (overflow); the rounding of finite results and
  underflow are not modelled. The draw of \<open>Math.random()\<close>, a number in \<open>[0, 1)\<close>, is the
  argument \<open>u\<close>.
\<close>

datatype jsnum = NaN | Num rat | PosInf | NegInf

definition overflowBound :: rat where
  "overflowBound = 2 ^ 1024"

definition toNumber :: "rat \<Rightarrow> jsnum" where
  "toNumber x =
     (if overflowBound \<le> x then PosInf else if x \<le> - overflowBound then NegInf else Num x)"

fun signOf :: "jsnum \<Rightarrow> int option" where
  "signOf NaN = None"
| "signOf (Num x) = Some (if 0 < x then 1 else if x < 0 then - 1 else 0)"
| "signOf PosInf = Some 1"
| "signOf NegInf = Some (- 1)"

text \<open>
  \<open>a * b\<close>, \<open>a + b\<close> and \<open>Math.min(a, b)\<close>. With an infinite factor the product is
  the infinity of the product of the signs, and \<open>NaN\<close> when the other factor is zero.
\<close>

fun jsTimes :: "jsnum \<Rightarrow> jsnum \<Rightarrow> jsnum" where
  "jsTimes (Num x) (Num y) = toNumber (x * y)"
| "jsTimes a b =
     (case (signOf a, signOf b) of
        (Some s, Some t) \<Rightarrow> if 0 < s * t then PosInf else if s * t < 0 then NegInf else NaN
      | _ \<Rightarrow> NaN)"

fun jsPlus :: "jsnum \<Rightarrow> jsnum \<Rightarrow> jsnum" where
  "jsPlus (Num x) (Num y) = toNumber (x + y)"
| "jsPlus NaN b = NaN"
| "jsPlus a NaN = NaN"
| "jsPlus PosInf NegInf = NaN"
| "jsPlus NegInf PosInf = NaN"
| "jsPlus PosInf b = PosInf"
| "jsPlus a PosInf = PosInf"
| "jsPlus NegInf b = NegInf"
| "jsPlus a NegInf = NegInf"

fun jsMin :: "jsnum \<Rightarrow> jsnum \<Rightarrow> jsnum" where
  "jsMin (Num x) (Num y) = Num (min x y)"
| "jsMin NaN b = NaN"
| "jsMin a NaN = NaN"
| "jsMin NegInf b = NegInf"
| "jsMin a NegInf = NegInf"
| "jsMin PosInf b = b"
| "jsMin a PosInf = a"

text \<open>\<open>Math.pow(2, k)\<close> for an integer \<open>k\<close>: infinite from \<open>k = 1024\<close> on.\<close>

definition pow2 :: "int \<Rightarrow> jsnum" where
  "pow2 k = (if 1024 \<le> k then PosInf else Num (2 powi k))"

definition times1000 :: "jsnum \<Rightarrow> jsnum" where
  "times1000 x = jsTimes x (Num 1000)"

definition exponentialBackoff :: "int \<Rightarrow> rat \<Rightarrow> rat \<Rightarrow> rat \<Rightarrow> jsnum" where
  "exponentialBackoff attempt baseDelayMs maxDelayMs u =
     (let exponentialDelay = jsTimes (Num baseDelayMs) (pow2 (attempt - 1));
          jitter = jsTimes (jsTimes exponentialDelay (Num (2 / 10))) (Num (u * 2 - 1))
      in jsMin (jsPlus exponentialDelay jitter) (Num maxDelayMs))"

text \<open>
  \<open>retryAfterMs && retryAfterMs > 0\<close>: \<open>retryAfterMs\<close> is an optional argument, and
  \<open>undefined\<close>, \<open>NaN\<close> and \<open>0\<close> are falsy.
\<close>

fun truthy :: "jsnum \<Rightarrow> bool" where
  "truthy NaN = False"
| "truthy (Num x) = (x \<noteq> 0)"
| "truthy _ = True"

fun above0 :: "jsnum \<Rightarrow> bool" where
  "above0 (Num x) = (0 < x)"
| "above0 PosInf = True"
| "above0 _ = False"

fun calculateBackoffDelay :: "int \<Rightarrow> rat \<Rightarrow> rat \<Rightarrow> jsnum option \<Rightarrow> rat \<Rightarrow> jsnum" where
  "calculateBackoffDelay attempt baseDelayMs maxDelayMs (Some retryAfterMs) u =
     (if truthy retryAfterMs \<and> above0 retryAfterMs
      then jsMin (jsPlus retryAfterMs (Num 500)) (Num maxDelayMs)
      else exponentialBackoff attempt baseDelayMs maxDelayMs u)"
| "calculateBackoffDelay attempt baseDelayMs maxDelayMs None u =
     exponentialBackoff attempt baseDelayMs maxDelayMs u"


definition isRateLimitError :: "int \<Rightarrow> bool" where
  "isRateLimitError st = (st = 429 \<or> st = 529)"

definition isDigit :: "char \<Rightarrow> bool" where
  "isDigit c = (c \<in> set ''0123456789'')"

definition digitValue :: "char \<Rightarrow> int" where
  "digitValue c =
     (case map_of (zip ''0123456789'' [0, 1, 2, 3, 4, 5, 6, 7, 8, 9]) c of
        None \<Rightarrow> 0 | Some d \<Rightarrow> d)"

definition digitsValue :: "string \<Rightarrow> int" where
  "digitsValue ds = foldl (\<lambda>n c. 10 * n + digitValue c) 0 ds"

text \<open>\<open>parseInt(s, 10)\<close>: leading white space, an optional sign, then the decimal digits.\<close>

definition parseInt :: "string \<Rightarrow> jsnum" where
  "parseInt s =
     (let t = dropWhile isWhiteSpace s;
          negative = (t \<noteq> [] \<and> hd t = CHR ''-'');
          u = (if t \<noteq> [] \<and> (hd t = CHR ''-'' \<or> hd t = CHR ''+'') then tl t else t);
          ds = takeWhile isDigit u
      in if ds = [] then NaN
         else toNumber (if negative then - of_int (digitsValue ds) else of_int (digitsValue ds)))"

definition toLowerAscii :: "char \<Rightarrow> char" where
  "toLowerAscii c =
     (case map_of (zip ''ABCDEFGHIJKLMNOPQRSTUVWXYZ'' ''abcdefghijklmnopqrstuvwxyz'') c of
        None \<Rightarrow> c | Some l \<Rightarrow> l)"

text \<open>
  The first match of \<open>/(\\d+)\\s*seconds?/i\<close> in a message, as its digit group: a maximal
  run of digits, optional white space, then \<open>second\<close> in either case.
\<close>

fun matchSeconds :: "string \<Rightarrow> string option" where
  "matchSeconds [] = None"
| "matchSeconds (c # cs) =
     (if isDigit c
         \<and> startsWith (map toLowerAscii (dropWhile isWhiteSpace (dropWhile isDigit (c # cs))))
              ''second''
      then Some (takeWhile isDigit (c # cs))
      else matchSeconds cs)"

section \<open>The provider calls (\<open>anthropic.ts\<close>, \<open>openai.ts\<close>)\<close>

text \<open>
  The two functions are the same loop; they differ in the provider named in the error
  messages, in the request sent and in how the content is read from a successful body.
\<close>

datatype provider = Anthropic | OpenAI

datatype ModelType = ClaudeSonnet45 | ClaudeOpus45 | ChatGPT52

fun getModelProvider :: "ModelType \<Rightarrow> provider" where
  "getModelProvider ChatGPT52 = OpenAI"
| "getModelProvider _ = Anthropic"

text \<open>\<open>getAnthropicModelId\<close> and \<open>getOpenAIModelId\<close>: which models each function accepts.\<close>

definition supportsModel :: "provider \<Rightarrow> ModelType \<Rightarrow> bool" where
  "supportsModel p m = (getModelProvider m = p)"

text \<open>
  The body of a response as the two error branches read it, through \<open>response.json()\<close>
  and then \<open>errorData.error?.message\<close>: the body is not JSON; it is JSON \<open>null\<close>, where
  reading \<open>errorData.error\<close> throws a \<open>TypeError\<close>; it is another JSON value with no
  \<open>error.message\<close>, or with one that is falsy and not a string; its \<open>error.message\<close> is
  a string; or its \<open>error.message\<close> is a truthy value that is not a string, kept as the
  text a template string renders it to.
\<close>

datatype error_body =
  NotJson
  | JsonNull
  | NoMessage
  | Message string
  | OtherMessage string

text \<open>
  A response as far as the code reads it: the status and its text, the \<open>retry-after\<close>
  header, the body as the error branches read it, and for a successful response the content
  and token counts read from the body (absent when reading them throws).
\<close>

record http_response =
  status :: int
  statusText :: string
  retryAfterHeader :: "string option"
  errorBody :: error_body
  payload :: "(string \<times> nat \<times> nat) option"

datatype fetch_outcome = NetworkError string | Response http_response

definition ok :: "http_response \<Rightarrow> bool" where
  "ok r = (200 \<le> status r \<and> status r \<le> 299)"

record LLMResponse =
  responseContent :: string
  responseModel :: ModelType
  inputTokens :: nat
  outputTokens :: nat

text \<open>
  The errors a call sequence throws: the three it constructs itself, the rejection of
  \<open>fetch\<close>, the \<open>TypeError\<close> of reading \<open>error\<close> of a \<open>null\<close> error body, what reading
  a successful body throws, and the error after the loop.
\<close>

datatype gateway_error =
  UnsupportedModel provider ModelType
  | RateLimitExceeded provider int
  | ApiError provider int string
  | FetchFailed string
  | NullErrorBody
  | UnreadableBody
  | MaxRetriesExceeded provider

text \<open>What a call sequence does besides returning: its requests, its notifications and waits.\<close>

datatype gateway_event =
  Fetch int
  | OnRateLimitWait jsnum int
  | Sleep jsnum

text \<open>
  The environment of a call sequence: what the \<open>k\<close>-th attempt's \<open>fetch\<close> gives and what
  \<open>Math.random()\<close> draws at the \<open>k\<close>-th attempt.
\<close>

record network =
  fetchAt :: "int \<Rightarrow> fetch_outcome"
  randomAt :: "int \<Rightarrow> rat"

definition maxRetries :: int where
  "maxRetries = 5"

definition baseDelayMs :: rat where
  "baseDelayMs = 2000"

definition maxDelayMs :: rat where
  "maxDelayMs = 120000"

text \<open>\<open>parseRateLimitHeaders(...).retryAfterMs\<close>, then the override from the error body.\<close>

definition headerRetryAfterMs :: "http_response \<Rightarrow> jsnum" where
  "headerRetryAfterMs r =
     (case retryAfterHeader r of
        None \<Rightarrow> Num 0
      | Some h \<Rightarrow> if h = [] then Num 0 else times1000 (parseInt h))"

text \<open>
  The rate-limit branch reads the body inside \<open>try\<close>: whatever is thrown there (the body
  is not JSON, it is \<open>null\<close>, the message has no \<open>match\<close> method) leaves the value of
  the header in place.
\<close>

definition retryAfterMsOf :: "http_response \<Rightarrow> jsnum" where
  "retryAfterMsOf r =
     (case errorBody r of
        Message msg \<Rightarrow>
          if msg = [] then headerRetryAfterMs r
          else (case matchSeconds msg of
                  None \<Rightarrow> headerRetryAfterMs r
                | Some ds \<Rightarrow> times1000 (parseInt ds))
      | _ \<Rightarrow> headerRetryAfterMs r)"

text \<open>
  \<open>errorData.error?.message || response.statusText\<close> as the error message renders it,
  where \<open>errorData\<close> is the parsed body, or \<open>{}\<close> when the body is not JSON. On a
  \<open>null\<close> body the expression throws; \<open>callLoop\<close> takes that case first.
\<close>

definition errorMessageOf :: "http_response \<Rightarrow> string" where
  "errorMessageOf r =
     (case errorBody r of
        Message m \<Rightarrow> orElse m (statusText r)
      | OtherMessage v \<Rightarrow> v
      | _ \<Rightarrow> statusText r)"

function callLoop :: "network \<Rightarrow> provider \<Rightarrow> ModelType \<Rightarrow> int \<Rightarrow> gateway_event list
    \<Rightarrow> (gateway_error + LLMResponse) \<times> gateway_event list" where
  "callLoop N p model attempt events =
     (if attempt \<le> maxRetries then
        (case fetchAt N attempt of
           NetworkError m \<Rightarrow> (Inl (FetchFailed m), events @ [Fetch attempt])
         | Response r \<Rightarrow>
             (let events1 = events @ [Fetch attempt] in
              if isRateLimitError (status r) then
                (if attempt < maxRetries then
                   (let delayMs = calculateBackoffDelay attempt baseDelayMs maxDelayMs
                                    (Some (retryAfterMsOf r)) (randomAt N attempt)
                    in callLoop N p model (attempt + 1)
                         (events1 @ [OnRateLimitWait delayMs attempt, Sleep delayMs]))
                 else (Inl (RateLimitExceeded p attempt), events1))
              else if \<not> ok r then
                (if errorBody r = JsonNull then (Inl NullErrorBody, events1)
                 else if status r = 401 \<or> status r = 403 then
                   (Inl (ApiError p (status r) (errorMessageOf r)), events1)
                 else if status r \<ge> 500 \<and> attempt < maxRetries then
                   (let delayMs = calculateBackoffDelay attempt baseDelayMs maxDelayMs None
                                    (randomAt N attempt)
                    in callLoop N p model (attempt + 1) (events1 @ [Sleep delayMs]))
                 else (Inl (ApiError p (status r) (errorMessageOf r)), events1))
              else
                (case payload r of
                   None \<Rightarrow> (Inl UnreadableBody, events1)
                 | Some (text, tin, tout) \<Rightarrow>
                     (Inr \<lparr>responseContent = text, responseModel = model, inputTokens = tin,
                           outputTokens = tout\<rparr>, events1))))
      else (Inl (MaxRetriesExceeded p), events))"
  by pat_completeness auto
termination
  by (relation "measure (\<lambda>(N, p, model, attempt, events). nat (maxRetries + 1 - attempt))") auto

definition callProvider :: "network \<Rightarrow> provider \<Rightarrow> ModelType
    \<Rightarrow> (gateway_error + LLMResponse) \<times> gateway_event list" where
  "callProvider N p model =
     (if supportsModel p model then callLoop N p model 1 []
      else (Inl (UnsupportedModel p model), []))"

definition callAnthropic :: "network \<Rightarrow> ModelType \<Rightarrow> (gateway_error + LLMResponse) \<times> gateway_event list" where
  "callAnthropic N model = callProvider N Anthropic model"

definition callOpenAI :: "network \<Rightarrow> ModelType \<Rightarrow> (gateway_error + LLMResponse) \<times> gateway_event list" where
  "callOpenAI N model = callProvider N OpenAI model"

text \<open>
  The message of the error thrown, with the provider's name and the numbers in decimal. The
  text of the \<open>TypeError\<close> is the engine's and is abridged here.
\<close>

fun providerName :: "provider \<Rightarrow> string" where
  "providerName Anthropic = ''Anthropic''"
| "providerName OpenAI = ''OpenAI''"

definition digitChar :: "int \<Rightarrow> char" where
  "digitChar d =
     (case map_of (zip [0, 1, 2, 3, 4, 5, 6, 7, 8, 9] ''0123456789'') d of
        None \<Rightarrow> CHR ''?'' | Some c \<Rightarrow> c)"

function showDigits :: "int \<Rightarrow> string" where
  "showDigits n = (if n < 10 then [digitChar n] else showDigits (n div 10) @ [digitChar (n mod 10)])"
  by pat_completeness auto
termination
  by (relation "measure nat") auto

definition showInt :: "int \<Rightarrow> string" where
  "showInt i = (if i < 0 then CHR ''-'' # showDigits (- i) else showDigits i)"

fun modelName :: "ModelType \<Rightarrow> string" where
  "modelName ClaudeSonnet45 = ''claude-sonnet-4-5''"
| "modelName ClaudeOpus45 = ''claude-opus-4-5''"
| "modelName ChatGPT52 = ''chatgpt-5-2''"

fun message :: "gateway_error \<Rightarrow> string" where
  "message (UnsupportedModel p m) = ''Unsupported '' @ providerName p @ '' model: '' @ modelName m"
| "message (RateLimitExceeded p n) =
     providerName p @ '' rate limit exceeded after '' @ showInt n
       @ '' attempts. Please wait and try again.''"
| "message (ApiError p st m) = providerName p @ '' API error: '' @ showInt st @ '' - '' @ m"
| "message (FetchFailed m) = m"
| "message NullErrorBody = ''Cannot read properties of null''"
| "message UnreadableBody = ''Unexpected response body''"
| "message (MaxRetriesExceeded p) = ''Max retries exceeded for '' @ providerName p @ '' API call''"

text \<open>The attempt count an error names, if it names one.\<close>

fun attemptsNamed :: "gateway_error \<Rightarrow> int option" where
  "attemptsNamed (RateLimitExceeded p n) = Some n"
| "attemptsNamed _ = None"

definition fetches :: "gateway_event list \<Rightarrow> nat" where
  "fetches events = length (filter (\<lambda>e. case e of Fetch k \<Rightarrow> True | _ \<Rightarrow> False) events)"

definition waits :: "gateway_event list \<Rightarrow> nat" where
  "waits events = length (filter (\<lambda>e. case e of Sleep d \<Rightarrow> True | _ \<Rightarrow> False) events)"

text \<open>A network that always answers with the same response, and one that is unreachable.\<close>

definition always :: "http_response \<Rightarrow> network" where
  "always r = \<lparr>fetchAt = (\<lambda>k. Response r), randomAt = (\<lambda>k. 1 / 2)\<rparr>"

definition unreachable :: network where
  "unreachable = \<lparr>fetchAt = (\<lambda>k. NetworkError ''Failed to fetch''), randomAt = (\<lambda>k. 1 / 2)\<rparr>"

text \<open>
  A network that answers attempt \<open>k\<close> with the \<open>k\<close>-th response of a list and is
  unreachable after it, and a rate-limit response that carries a \<open>retry-after\<close> header.
\<close>

definition scriptedNetwork :: "http_response list \<Rightarrow> network" where
  "scriptedNetwork rs =
     \<lparr>fetchAt = (\<lambda>k. if 1 \<le> k \<and> nat k \<le> length rs then Response (rs ! (nat k - 1))
                        else NetworkError ''Failed to fetch''),
      randomAt = (\<lambda>k. 1 / 2)\<rparr>"


text \<open>A response with an empty body, which is not JSON.\<close>

definition plainResponse :: "int \<Rightarrow> string \<Rightarrow> http_response" where
  "plainResponse st txt = \<lparr>status = st, statusText = txt, retryAfterHeader = None,
     errorBody = NotJson, payload = None\<rparr>"

text \<open>
  The responses after which the loop waits and tries again, while attempts are left: a
  rate-limit status, or a status of 500 and above whose body is not \<open>null\<close>.
\<close>

definition retryable :: "http_response \<Rightarrow> bool" where
  "retryable r = (isRateLimitError (status r) \<or> (500 \<le> status r \<and> errorBody r \<noteq> JsonNull))"

text \<open>The outcome of the last attempt, as the loop body computes it when no attempt is left.\<close>

definition finalAttempt :: "provider \<Rightarrow> ModelType \<Rightarrow> http_response \<Rightarrow> gateway_error + LLMResponse" where
  "finalAttempt p model r = fst (callLoop \<lparr>fetchAt = (\<lambda>k. Response r), randomAt = (\<lambda>k. 0)\<rparr> p model maxRetries [])"

section \<open>Checkpoints (\<open>storage.ts\<close>, \<open>orchestration.types.ts\<close>)\<close>

datatype OrchestrationState = Idle | Running | Paused | Complete | Failed

fun stateName :: "OrchestrationState \<Rightarrow> string" where
  "stateName Idle = ''idle''"
| "stateName Running = ''running''"
| "stateName Paused = ''paused''"
| "stateName Complete = ''complete''"
| "stateName Failed = ''error''"

fun agentName :: "AgentType \<Rightarrow> string" where
  "agentName Product = ''product''"
| "agentName Architect = ''architect''"
| "agentName Scrum = ''scrum''"
| "agentName Developer = ''developer''"
| "agentName Tester = ''tester''"
| "agentName DevOps = ''devops''"

record APIKeys =
  anthropic :: "string option"
  openai :: "string option"

record OrchestrationConfig =
  prompt :: string
  executorModel :: ModelType
  reviewerModel :: ModelType
  apiKeys :: APIKeys
  maxFeedbackCycles :: int

record OrchestrationProgress =
  progressState :: OrchestrationState
  currentStage :: int
  totalStages :: int
  currentAgent :: "AgentType option"
  currentArtifact :: "IRType option"
  currentFeedbackCycle :: int
  progressMaxFeedbackCycles :: int
  completedArtifacts :: "string list"
  statusMessage :: string
  progressError :: "string option"

text \<open>
  Values of the host language as far as the checkpoint needs them: what \<open>JSON.parse\<close>
  returns, and \<open>Date\<close> objects, which \<open>JSON.parse\<close> never returns. Object fields are in
  insertion order.
\<close>

datatype jsdate = InvalidDate | Instant int

datatype jsval =
  JNull
  | JBool bool
  | JNum int
  | JStr string
  | JDate jsdate
  | JArr "jsval list"
  | JObj "(string \<times> jsval) list"

text \<open>
  The platform below the checkpoint code: \<open>JSON.stringify\<close>, \<open>JSON.parse\<close> (\<open>None\<close> when
  it throws), \<open>Date.prototype.toISOString\<close> on a time value, the parsing of a date string
  by \<open>new Date(s)\<close>, and whether \<open>localStorage.setItem\<close> accepts a write or throws (quota).
\<close>

record platform =
  JSON_stringify :: "jsval \<Rightarrow> string"
  JSON_parse :: "string \<Rightarrow> jsval option"
  toISOString :: "int \<Rightarrow> string"
  Date_parse :: "string \<Rightarrow> jsdate"
  accepts :: "(string \<rightharpoonup> string) \<Rightarrow> string \<Rightarrow> string \<Rightarrow> bool"

text \<open>What \<open>JSON.stringify\<close> writes for a value: a \<open>Date\<close> goes through \<open>toJSON\<close>.\<close>

primrec jsonForm :: "platform \<Rightarrow> jsval \<Rightarrow> jsval" where
  "jsonForm P JNull = JNull"
| "jsonForm P (JBool b) = JBool b"
| "jsonForm P (JNum n) = JNum n"
| "jsonForm P (JStr s) = JStr s"
| "jsonForm P (JDate d) = (case d of InvalidDate \<Rightarrow> JNull | Instant t \<Rightarrow> JStr (toISOString P t))"
| "jsonForm P (JArr xs) = JArr (map (jsonForm P) xs)"
| "jsonForm P (JObj kvs) = JObj (map (map_prod id (jsonForm P)) kvs)"

text \<open>The objects in memory, field by field as the source builds them.\<close>

definition configWithoutKeys :: "OrchestrationConfig \<Rightarrow> jsval" where
  "configWithoutKeys c = JObj
     [(''prompt'', JStr (prompt c)),
      (''executorModel'', JStr (modelName (executorModel c))),
      (''reviewerModel'', JStr (modelName (reviewerModel c))),
      (''maxFeedbackCycles'', JNum (maxFeedbackCycles c))]"

definition optionalField :: "string \<Rightarrow> jsval option \<Rightarrow> (string \<times> jsval) list" where
  "optionalField k v = (case v of None \<Rightarrow> [] | Some x \<Rightarrow> [(k, x)])"

definition nullable :: "jsval option \<Rightarrow> jsval" where
  "nullable v = (case v of None \<Rightarrow> JNull | Some x \<Rightarrow> x)"

definition progressValue :: "OrchestrationProgress \<Rightarrow> jsval" where
  "progressValue p = JObj
     ([(''state'', JStr (stateName (progressState p))),
       (''currentStage'', JNum (currentStage p)),
       (''totalStages'', JNum (totalStages p)),
       (''currentAgent'', nullable (map_option (JStr \<circ> agentName) (currentAgent p))),
       (''currentArtifact'', nullable (map_option (JStr \<circ> irTypeName) (currentArtifact p))),
       (''currentFeedbackCycle'', JNum (currentFeedbackCycle p)),
       (''maxFeedbackCycles'', JNum (progressMaxFeedbackCycles p)),
       (''completedArtifacts'', JArr (map JStr (completedArtifacts p))),
       (''statusMessage'', JStr (statusMessage p))]
      @ optionalField ''error'' (map_option JStr (progressError p)))"

definition artifactValue :: "SpecArtifact \<Rightarrow> jsval" where
  "artifactValue a = JObj
     [(''irType'', JStr (irTypeName (irType a))),
      (''fileName'', JStr (fileName a)),
      (''filePath'', JStr (filePath a)),
      (''content'', JStr (content a)),
      (''version'', JStr (version a)),
      (''createdBy'', JStr (agentName (createdBy a))),
      (''createdAt'', JDate (Instant (createdAt a)))]"

definition CONFIG :: string where "CONFIG = ''spec-ir-generator-config''"
definition PROGRESS :: string where "PROGRESS = ''spec-ir-generator-progress''"
definition ARTIFACTS :: string where "ARTIFACTS = ''spec-ir-generator-artifacts''"
definition MODULE_NAME :: string where "MODULE_NAME = ''spec-ir-generator-module-name''"

text \<open>\<open>localStorage.setItem\<close>: the updated store, or \<open>None\<close> when it throws.\<close>

definition setItem :: "platform \<Rightarrow> string \<Rightarrow> string \<Rightarrow> (string \<rightharpoonup> string)
    \<Rightarrow> (string \<rightharpoonup> string) option" where
  "setItem P k v st = (if accepts P st k v then Some (st(k \<mapsto> v)) else None)"

text \<open>
  \<open>saveState\<close>: four writes in a \<open>try\<close> block; a write that throws ends the function and
  leaves the earlier writes in place.
\<close>

definition saveState :: "platform \<Rightarrow> OrchestrationConfig \<Rightarrow> OrchestrationProgress
    \<Rightarrow> SpecArtifact list \<Rightarrow> string \<Rightarrow> (string \<rightharpoonup> string) \<Rightarrow> (string \<rightharpoonup> string)" where
  "saveState P config progress arts name st =
     (case setItem P CONFIG (JSON_stringify P (configWithoutKeys config)) st of
        None \<Rightarrow> st
      | Some st1 \<Rightarrow>
     (case setItem P PROGRESS (JSON_stringify P (progressValue progress)) st1 of
        None \<Rightarrow> st1
      | Some st2 \<Rightarrow>
     (case setItem P ARTIFACTS (JSON_stringify P (JArr (map artifactValue arts))) st2 of
        None \<Rightarrow> st2
      | Some st3 \<Rightarrow>
     (case setItem P MODULE_NAME name st3 of
        None \<Rightarrow> st3
      | Some st4 \<Rightarrow> st4))))"

text \<open>
  \<open>new Date(v)\<close> for a property value \<open>v\<close> (\<open>None\<close>: the property is missing). A value that
  is an array or an object goes through its string form in the host language; that path is
  not modelled and gives an invalid date here.
\<close>

fun newDate :: "platform \<Rightarrow> jsval option \<Rightarrow> jsdate" where
  "newDate P None = InvalidDate"
| "newDate P (Some JNull) = Instant 0"
| "newDate P (Some (JBool b)) = Instant (if b then 1 else 0)"
| "newDate P (Some (JNum n)) = (if \<bar>n\<bar> \<le> 8640000000000000 then Instant n else InvalidDate)"
| "newDate P (Some (JStr s)) = Date_parse P s"
| "newDate P (Some (JDate d)) = d"
| "newDate P (Some _) = InvalidDate"

text \<open>
  The loop that restores the dates. An element that is \<open>null\<close> or a primitive makes the
  assignment throw (module code is strict); setting a property on an element that is an
  array is not modelled and leaves it as it is. A value that is not iterable throws; the
  empty string is iterable and has no element.
\<close>

fun reviveArtifact :: "platform \<Rightarrow> jsval \<Rightarrow> jsval option" where
  "reviveArtifact P (JObj kvs) =
     Some (JObj (mapSet ''createdAt'' (JDate (newDate P (map_of kvs ''createdAt''))) kvs))"
| "reviveArtifact P (JArr xs) = Some (JArr xs)"
| "reviveArtifact P (JDate d) = Some (JDate d)"
| "reviveArtifact P _ = None"

fun allSome :: "'a option list \<Rightarrow> 'a list option" where
  "allSome [] = Some []"
| "allSome (None # xs) = None"
| "allSome (Some x # xs) = (case allSome xs of None \<Rightarrow> None | Some ys \<Rightarrow> Some (x # ys))"

fun reviveArtifacts :: "platform \<Rightarrow> jsval \<Rightarrow> jsval option" where
  "reviveArtifacts P (JArr xs) = map_option JArr (allSome (map (reviveArtifact P) xs))"
| "reviveArtifacts P (JStr s) = (if s = [] then Some (JStr []) else None)"
| "reviveArtifacts P _ = None"

record PersistedState =
  persistedConfig :: jsval
  persistedProgress :: jsval
  persistedArtifacts :: jsval
  persistedModuleName :: string
  persistedTimestamp :: int

text \<open>
  \<open>loadState\<close>: \<open>None\<close> is \<open>null\<close>. A missing or empty item gives \<open>null\<close>, and so does
  anything thrown while parsing or restoring. \<open>now\<close> is what \<open>Date.now()\<close> reads.
\<close>

definition loadState :: "platform \<Rightarrow> int \<Rightarrow> (string \<rightharpoonup> string) \<Rightarrow> PersistedState option" where
  "loadState P now st =
     (case (st CONFIG, st PROGRESS, st ARTIFACTS, st MODULE_NAME) of
        (Some configStr, Some progressStr, Some artifactsStr, Some name) \<Rightarrow>
          if configStr = [] \<or> progressStr = [] \<or> artifactsStr = [] \<or> name = [] then None
          else
            (case JSON_parse P configStr of None \<Rightarrow> None | Some config \<Rightarrow>
            (case JSON_parse P progressStr of None \<Rightarrow> None | Some progress \<Rightarrow>
            (case JSON_parse P artifactsStr of None \<Rightarrow> None | Some arts \<Rightarrow>
            (case reviveArtifacts P arts of None \<Rightarrow> None | Some revived \<Rightarrow>
               Some \<lparr>persistedConfig = config, persistedProgress = progress,
                     persistedArtifacts = revived, persistedModuleName = name,
                     persistedTimestamp = now\<rparr>))))
      | _ \<Rightarrow> None)"

text \<open>The fields of an object value, and one of them.\<close>

fun fieldNames :: "jsval \<Rightarrow> string list" where
  "fieldNames (JObj kvs) = map fst kvs"
| "fieldNames _ = []"

fun field :: "string \<Rightarrow> jsval \<Rightarrow> jsval option" where
  "field k (JObj kvs) = map_of kvs k"
| "field k _ = None"

section \<open>A reference platform for concrete checkpoints\<close>

text \<open>
  A printer and a parser for the JSON that the checkpoint writes (integers, strings with
  the escapes of quote, backslash, line feed, carriage return and tab, arrays, objects),
  and ISO 8601 instants for the years 0000 to 9999, after the host language's
  \<open>JSON.stringify\<close>, \<open>JSON.parse\<close>, \<open>toISOString\<close> and \<open>Date.parse\<close>.
\<close>

fun escapeChar :: "char \<Rightarrow> string" where
  "escapeChar c =
     (if c = CHR 0x22 then [CHR 0x5C, CHR 0x22]
      else if c = CHR 0x5C then [CHR 0x5C, CHR 0x5C]
      else if c = CHR 0x0A then [CHR 0x5C, CHR ''n'']
      else if c = CHR 0x0D then [CHR 0x5C, CHR ''r'']
      else if c = CHR 0x09 then [CHR 0x5C, CHR ''t'']
      else [c])"

definition printString :: "string \<Rightarrow> string" where
  "printString s = CHR 0x22 # concat (map escapeChar s) @ [CHR 0x22]"

fun joinWith :: "string \<Rightarrow> string list \<Rightarrow> string" where
  "joinWith sep [] = []"
| "joinWith sep [x] = x"
| "joinWith sep (x # y # ys) = x @ sep @ joinWith sep (y # ys)"

definition padTo :: "nat \<Rightarrow> string \<Rightarrow> string" where
  "padTo w ds = replicate (w - length ds) CHR ''0'' @ ds"

definition pad :: "nat \<Rightarrow> int \<Rightarrow> string" where
  "pad w n = padTo w (showDigits n)"

text \<open>Days since the epoch to the civil date, and back (proleptic Gregorian calendar).\<close>

definition civilOfMonth :: "int \<Rightarrow> int \<Rightarrow> int \<Rightarrow> int \<times> int \<times> int" where
  "civilOfMonth y0 doy mp =
     (y0 + (if mp < 10 then 0 else 1), (if mp < 10 then mp + 3 else mp - 9),
      doy - (153 * mp + 2) div 5 + 1)"

definition civilOfDay :: "int \<Rightarrow> int \<Rightarrow> int \<times> int \<times> int" where
  "civilOfDay y0 doy = civilOfMonth y0 doy ((5 * doy + 2) div 153)"

definition civilOfYear :: "int \<Rightarrow> int \<Rightarrow> int \<Rightarrow> int \<times> int \<times> int" where
  "civilOfYear era doe yoe =
     civilOfDay (yoe + era * 400) (doe - (365 * yoe + yoe div 4 - yoe div 100))"

definition civilOfEra :: "int \<Rightarrow> int \<Rightarrow> int \<times> int \<times> int" where
  "civilOfEra era doe =
     civilOfYear era doe ((doe - doe div 1460 + doe div 36524 - doe div 146096) div 365)"

definition civilFromDays :: "int \<Rightarrow> int \<times> int \<times> int" where
  "civilFromDays days = civilOfEra ((days + 719468) div 146097) ((days + 719468) mod 146097)"

definition daysOfYear :: "int \<Rightarrow> int \<Rightarrow> int \<Rightarrow> int" where
  "daysOfYear y1 m d =
     (y1 div 400) * 146097
       + ((y1 mod 400) * 365 + (y1 mod 400) div 4 - (y1 mod 400) div 100
          + ((153 * (if m > 2 then m - 3 else m + 9) + 2) div 5 + d - 1))
       - 719468"

definition daysFromCivil :: "int \<Rightarrow> int \<Rightarrow> int \<Rightarrow> int" where
  "daysFromCivil y m d = daysOfYear (if m \<le> 2 then y - 1 else y) m d"

definition isoDate :: "int \<times> int \<times> int \<Rightarrow> string" where
  "isoDate ymd = (case ymd of (y, m, d) \<Rightarrow> pad 4 y @ ''-'' @ pad 2 m @ ''-'' @ pad 2 d)"

definition isoTime :: "int \<Rightarrow> string" where
  "isoTime secs =
     pad 2 ((secs div 3600) mod 24) @ '':'' @ pad 2 ((secs div 60) mod 60) @ '':''
       @ pad 2 (secs mod 60)"

definition isoString :: "int \<Rightarrow> string" where
  "isoString t =
     isoDate (civilFromDays (t div 86400000)) @ ''T'' @ isoTime (t div 1000) @ ''.''
       @ pad 3 (t mod 1000) @ ''Z''"

definition digitsAt :: "string \<Rightarrow> nat \<Rightarrow> nat \<Rightarrow> int option" where
  "digitsAt s i n =
     (let ds = take n (drop i s)
      in if length ds = n \<and> list_all isDigit ds then Some (digitsValue ds) else None)"

definition parseIso :: "string \<Rightarrow> jsdate" where
  "parseIso s =
     (if length s = 24 \<and> map (\<lambda>i. s ! i) [4, 7, 10, 13, 16, 19, 23] = ''--T::.Z'' then
        (case (digitsAt s 0 4, digitsAt s 5 2, digitsAt s 8 2, digitsAt s 11 2,
               digitsAt s 14 2, digitsAt s 17 2, digitsAt s 20 3) of
           (Some y, Some m, Some d, Some h, Some mi, Some sec, Some ms) \<Rightarrow>
             if 1 \<le> m \<and> m \<le> 12 \<and> 1 \<le> d \<and> d \<le> 31 \<and> h \<le> 23 \<and> mi \<le> 59 \<and> sec \<le> 59 then
               Instant ((((daysFromCivil y m d * 24 + h) * 60 + mi) * 60 + sec) * 1000 + ms)
             else InvalidDate
         | _ \<Rightarrow> InvalidDate)
      else InvalidDate)"

primrec printJson :: "jsval \<Rightarrow> string" where
  "printJson JNull = ''null''"
| "printJson (JBool b) = (if b then ''true'' else ''false'')"
| "printJson (JNum n) = showInt n"
| "printJson (JStr s) = printString s"
| "printJson (JDate d) = (case d of InvalidDate \<Rightarrow> ''null'' | Instant t \<Rightarrow> printString (isoString t))"
| "printJson (JArr xs) = ''['' @ joinWith '','' (map printJson xs) @ '']''"
| "printJson (JObj kvs) =
     ''{'' @ joinWith '','' (map (\<lambda>(k, s). printString k @ '':'' @ s) (map (map_prod id printJson) kvs))
       @ ''}''"

fun parseStringBody :: "string \<Rightarrow> (string \<times> string) option" where
  "parseStringBody [] = None"
| "parseStringBody (c # cs) =
     (if c = CHR 0x22 then Some ([], cs)
      else if c = CHR 0x5C then
        (case cs of
           [] \<Rightarrow> None
         | e # rest \<Rightarrow>
             (case parseStringBody rest of
                None \<Rightarrow> None
              | Some (str, r) \<Rightarrow>
                  if e = CHR ''n'' then Some (CHR 0x0A # str, r)
                  else if e = CHR ''r'' then Some (CHR 0x0D # str, r)
                  else if e = CHR ''t'' then Some (CHR 0x09 # str, r)
                  else if e = CHR 0x22 \<or> e = CHR 0x5C \<or> e = CHR ''/'' then Some (e # str, r)
                  else None))
      else (case parseStringBody cs of None \<Rightarrow> None | Some (str, r) \<Rightarrow> Some (c # str, r)))"

definition skipWs :: "string \<Rightarrow> string" where
  "skipWs s = dropWhile (\<lambda>c. c = CHR '' '' \<or> c = CHR 0x0A \<or> c = CHR 0x0D \<or> c = CHR 0x09) s"

definition parseNumber :: "string \<Rightarrow> (jsval \<times> string) option" where
  "parseNumber s =
     (let negative = (s \<noteq> [] \<and> hd s = CHR ''-'');
          u = (if negative then tl s else s);
          ds = takeWhile isDigit u
      in if ds = [] then None
         else Some (JNum (if negative then - digitsValue ds else digitsValue ds),
                    dropWhile isDigit u))"

text \<open>The parser, by recursive descent; the first argument bounds the depth of recursion.\<close>

fun parseValue :: "nat \<Rightarrow> string \<Rightarrow> (jsval \<times> string) option"
  and parseElements :: "nat \<Rightarrow> string \<Rightarrow> (jsval list \<times> string) option"
  and parseMembers :: "nat \<Rightarrow> string \<Rightarrow> ((string \<times> jsval) list \<times> string) option" where
  "parseValue 0 s = None"
| "parseValue (Suc n) s =
     (case skipWs s of
        [] \<Rightarrow> None
      | c # cs \<Rightarrow>
          if startsWith (c # cs) ''null'' then Some (JNull, drop 4 (c # cs))
          else if startsWith (c # cs) ''true'' then Some (JBool True, drop 4 (c # cs))
          else if startsWith (c # cs) ''false'' then Some (JBool False, drop 5 (c # cs))
          else if c = CHR 0x22 then
            (case parseStringBody cs of None \<Rightarrow> None | Some (str, r) \<Rightarrow> Some (JStr str, r))
          else if c = CHR ''['' then
            (case skipWs cs of
               [] \<Rightarrow> None
             | e # r \<Rightarrow> if e = CHR '']'' then Some (JArr [], r)
                        else (case parseElements n cs of
                                None \<Rightarrow> None | Some (xs, r1) \<Rightarrow> Some (JArr xs, r1)))
          else if c = CHR ''{'' then
            (case skipWs cs of
               [] \<Rightarrow> None
             | e # r \<Rightarrow> if e = CHR ''}'' then Some (JObj [], r)
                        else (case parseMembers n cs of
                                None \<Rightarrow> None | Some (kvs, r1) \<Rightarrow> Some (JObj kvs, r1)))
          else parseNumber (c # cs))"
| "parseElements 0 s = None"
| "parseElements (Suc n) s =
     (case parseValue n s of
        None \<Rightarrow> None
      | Some (v, r) \<Rightarrow>
          (case skipWs r of
             [] \<Rightarrow> None
           | c # cs \<Rightarrow>
               if c = CHR '','' then
                 (case parseElements n cs of None \<Rightarrow> None | Some (vs, r1) \<Rightarrow> Some (v # vs, r1))
               else if c = CHR '']'' then Some ([v], cs)
               else None))"
| "parseMembers 0 s = None"
| "parseMembers (Suc n) s =
     (case skipWs s of
        [] \<Rightarrow> None
      | q # cs \<Rightarrow>
          if q \<noteq> CHR 0x22 then None
          else
            (case parseStringBody cs of
               None \<Rightarrow> None
             | Some (k, r) \<Rightarrow>
                 (case skipWs r of
                    [] \<Rightarrow> None
                  | colon # r1 \<Rightarrow>
                      if colon \<noteq> CHR '':'' then None
                      else
                        (case parseValue n r1 of
                           None \<Rightarrow> None
                         | Some (v, r2) \<Rightarrow>
                             (case skipWs r2 of
                                [] \<Rightarrow> None
                              | c # r3 \<Rightarrow>
                                  if c = CHR '','' then
                                    (case parseMembers n r3 of
                                       None \<Rightarrow> None
                                     | Some (kvs, r4) \<Rightarrow> Some ((k, v) # kvs, r4))
                                  else if c = CHR ''}'' then Some ([(k, v)], r3)
                                  else None)))))"

definition parseJson :: "string \<Rightarrow> jsval option" where
  "parseJson s =
     (case parseValue (Suc (length s)) s of
        None \<Rightarrow> None
      | Some (v, r) \<Rightarrow> if skipWs r = [] then Some v else None)"

definition referencePlatform :: platform where
  "referencePlatform = \<lparr>JSON_stringify = printJson, JSON_parse = parseJson,
     toISOString = isoString, Date_parse = parseIso, accepts = (\<lambda>st k v. True)\<rparr>"

text \<open>A checkpoint taken while the architect stage runs, after two artifacts.\<close>

definition sampleConfig :: OrchestrationConfig where
  "sampleConfig = \<lparr>prompt = ''Build a '' @ [CHR 0x22] @ ''todo'' @ [CHR 0x22] @ '' service'', executorModel = ClaudeOpus45,
     reviewerModel = ChatGPT52,
     apiKeys = \<lparr>anthropic = Some ''sk-ant-secret'', openai = Some ''sk-secret''\<rparr>,
     maxFeedbackCycles = 3\<rparr>"

definition sampleProgress :: OrchestrationProgress where
  "sampleProgress = \<lparr>progressState = Failed, currentStage = 2, totalStages = 6,
     currentAgent = Some Architect, currentArtifact = Some Infrastructure,
     currentFeedbackCycle = 1, progressMaxFeedbackCycles = 3,
     completedArtifacts = [''contract.spec.ir'', ''module.spec.ir''],
     statusMessage = ''Generating infrastructure.spec'',
     progressError = Some ''Anthropic API error: 401 - invalid x-api-key''\<rparr>"

definition sampleArtifacts :: "SpecArtifact list" where
  "sampleArtifacts = [mkArtifact Product Contract ''ir::contract {}'' 1767225600123,
                      mkArtifact Architect Module (''line 1'' @ [CHR 0x0A] @ ''line 2'') 1767229261000]"

section \<open>The feedback cycle: what a run of the loop leaves behind\<close>

declare cycleLoop.simps [simp del]

lemma response_shift:
  "response E calls ([x, y] @ new) (Suc (Suc j)) = response E (calls @ [x, y]) new j"
  by (simp add: response_def)

lemma cycleInv_step:
  assumes inv: "cycleInv E ag mx t (c + 1) (Some (mkArtifact ag t cl (clock E (Suc (length calls)))))
                  (calls @ [ex, rv]) res new"
    and le: "c \<le> mx"
    and ex: "isExecutor ex" "target ex = t" "llm E (length calls) ex = Inr raw" "cl = cleanSpecContent raw"
    and rv: "\<not> isExecutor rv" "target rv = t" "llm E (Suc (length calls)) rv = Inr rt"
      "\<not> approved (parseReviewResult rt)"
  shows "cycleInv E ag mx t c a calls res ([ex, rv] @ new)"
proof -
  let ?new = "[ex, rv] @ new"
  have g: "generateCalls ?new = Suc (generateCalls new)"
    and r: "reviewCalls ?new = Suc (reviewCalls new)"
    using ex rv by (simp_all add: generateCalls_def reviewCalls_def)
  have ne: "?new \<noteq> []" by simp
  have sh1: "response E calls ?new (length ?new - 1) = response E (calls @ [ex, rv]) new (length new - 1)"
    if "new \<noteq> []"
  proof -
    from that have "length ?new - 1 = Suc (Suc (length new - 1))" by (cases new) auto
    then show ?thesis by (simp only: response_shift)
  qed
  have sh2: "response E calls ?new (length ?new - 2) = response E (calls @ [ex, rv]) new (length new - 2)"
    if "2 \<le> length new"
  proof -
    from that have "length ?new - 2 = Suc (Suc (length new - 2))" by simp
    then show ?thesis by (simp only: response_shift)
  qed
  have p1: "\<forall>q \<in> set ?new. target q = t"
    using inv ex rv by (simp add: cycleInv_def)
  have p2: "generateCalls ?new \<le> nat (mx + 1 - c)"
    using inv le unfolding g by (simp add: cycleInv_def) linarith
  have p3: "reviewCalls ?new \<le> generateCalls ?new"
    using inv unfolding g r by (simp add: cycleInv_def)
  have alt: "\<forall>i < length new. isExecutor (new ! i) = even i"
    using inv unfolding cycleInv_def by blast
  have p7: "\<forall>i < length ?new. isExecutor (?new ! i) = even i"
  proof (intro allI impI)
    fix i assume i: "i < length ?new"
    show "isExecutor (?new ! i) = even i"
    proof (cases i)
      case 0
      with ex show ?thesis by simp
    next
      case (Suc j)
      show ?thesis
      proof (cases j)
        case 0
        with Suc rv show ?thesis by simp
      next
        case (Suc k)
        with \<open>i = Suc j\<close> i alt show ?thesis by simp
      qed
    qed
  qed
  have early: "\<forall>j. Suc j < length new \<longrightarrow>
           (\<exists>s. response E (calls @ [ex, rv]) new j = Inr s
              \<and> (odd j \<longrightarrow> \<not> approved (parseReviewResult s)))"
    using inv unfolding cycleInv_def by blast
  have p8: "\<forall>j. Suc j < length ?new \<longrightarrow>
           (\<exists>s. response E calls ?new j = Inr s \<and> (odd j \<longrightarrow> \<not> approved (parseReviewResult s)))"
  proof (intro allI impI)
    fix j assume j: "Suc j < length ?new"
    show "\<exists>s. response E calls ?new j = Inr s \<and> (odd j \<longrightarrow> \<not> approved (parseReviewResult s))"
    proof (cases j)
      case 0
      with ex show ?thesis by (simp add: response_def)
    next
      case (Suc k)
      show ?thesis
      proof (cases k)
        case 0
        with Suc rv show ?thesis by (simp add: response_def)
      next
        case (Suc l)
        with \<open>j = Suc k\<close> j have "Suc l < length new" by simp
        with early have "\<exists>s. response E (calls @ [ex, rv]) new l = Inr s
              \<and> (odd l \<longrightarrow> \<not> approved (parseReviewResult s))"
          by blast
        with Suc \<open>j = Suc k\<close> show ?thesis by (simp only: response_shift) simp
      qed
    qed
  qed
  have p5: "?new \<noteq> [] \<and> (\<exists>m. response E calls ?new (length ?new - 1) = Inl m \<and> e = Thrown m)"
    if res: "res = Inl e" for e
  proof -
    from inv res have n: "new \<noteq> []"
      and "\<exists>m. response E (calls @ [ex, rv]) new (length new - 1) = Inl m \<and> e = Thrown m"
      unfolding cycleInv_def by blast+
    with sh1[OF n] ne show ?thesis by simp
  qed
  have p4: "reviewCalls ?new = generateCalls ?new
        \<and> length ?new = 2 * generateCalls ?new
        \<and> (if cycleApproved r then c \<le> cyclesUsed r \<and> cyclesUsed r \<le> mx
                 \<and> generateCalls ?new = nat (cyclesUsed r + 1 - c)
               else cyclesUsed r = mx \<and> generateCalls ?new = nat (mx + 1 - c))
        \<and> (if ?new = [] then artifact r = a \<and> \<not> cycleApproved r
            else (\<exists>raw. response E calls ?new (length ?new - 2) = Inr raw
                      \<and> artifact r = Some (mkArtifact ag t (cleanSpecContent raw)
                            (clock E (length calls + length ?new - 1))))
                  \<and> (\<exists>rt. response E calls ?new (length ?new - 1) = Inr rt
                      \<and> approved (parseReviewResult rt) = cycleApproved r))"
    if res: "res = Inr r" for r
  proof -
    from inv res have a: "reviewCalls new = generateCalls new" "length new = 2 * generateCalls new"
      and b: "if cycleApproved r then c + 1 \<le> cyclesUsed r \<and> cyclesUsed r \<le> mx
                 \<and> generateCalls new = nat (cyclesUsed r + 1 - (c + 1))
               else cyclesUsed r = mx \<and> generateCalls new = nat (mx + 1 - (c + 1))"
      and d: "if new = [] then artifact r = Some (mkArtifact ag t cl (clock E (Suc (length calls))))
                 \<and> \<not> cycleApproved r
               else (\<exists>raw. response E (calls @ [ex, rv]) new (length new - 2) = Inr raw
                      \<and> artifact r = Some (mkArtifact ag t (cleanSpecContent raw)
                            (clock E (length (calls @ [ex, rv]) + length new - 1))))
                  \<and> (\<exists>rt. response E (calls @ [ex, rv]) new (length new - 1) = Inr rt
                      \<and> approved (parseReviewResult rt) = cycleApproved r)"
      unfolding cycleInv_def by blast+
    have c1: "reviewCalls ?new = generateCalls ?new" "length ?new = 2 * generateCalls ?new"
      unfolding g r using a by simp_all
    have c2: "if cycleApproved r then c \<le> cyclesUsed r \<and> cyclesUsed r \<le> mx
                 \<and> generateCalls ?new = nat (cyclesUsed r + 1 - c)
               else cyclesUsed r = mx \<and> generateCalls ?new = nat (mx + 1 - c)"
      unfolding g using b le by (auto split: if_splits)
    have c3: "(\<exists>raw. response E calls ?new (length ?new - 2) = Inr raw
                      \<and> artifact r = Some (mkArtifact ag t (cleanSpecContent raw)
                            (clock E (length calls + length ?new - 1))))
                  \<and> (\<exists>rt. response E calls ?new (length ?new - 1) = Inr rt
                      \<and> approved (parseReviewResult rt) = cycleApproved r)"
    proof (cases "new = []")
      case True
      with d ex rv show ?thesis by (simp add: response_def)
    next
      case False
      with a have len: "2 \<le> length new" by (cases new) auto
      have idx: "length (calls @ [ex, rv]) + length new - 1 = length calls + length ?new - 1"
        by simp
      from False d show ?thesis
        unfolding sh1[OF False] sh2[OF len] idx by simp
    qed
    from c1 c2 c3 show ?thesis unfolding if_not_P[OF ne] by blast
  qed
  show ?thesis
    unfolding cycleInv_def using p1 p2 p3 p7 p8 p5 p4 by blast
qed

lemma cycleLoop_inv:
  "cycleLoop E ag mx ctx t c h a calls = (res, calls') \<Longrightarrow>
     \<exists>new. calls' = calls @ new \<and> cycleInv E ag mx t c a calls res new"
proof (induction E ag mx ctx t c h a calls arbitrary: res calls' rule: cycleLoop.induct)
  case (1 E ag mx ctx t c h a calls)
  let ?ex = "ExecutorRequest ag ctx t h"
  show ?case
  proof (cases "c \<le> mx")
    case False
    with "1.prems" have "res = Inr \<lparr>artifact = a, cyclesUsed = mx, cycleApproved = False,
              cycleFeedbackHistory = h\<rparr>" "calls' = calls"
      by (simp_all add: cycleLoop.simps[of E ag mx ctx t c h a calls])
    with False have "calls' = calls @ [] \<and> cycleInv E ag mx t c a calls res []"
      by (simp add: cycleInv_def generateCalls_def reviewCalls_def)
    then show ?thesis by blast
  next
    case le: True
    show ?thesis
    proof (cases "llm E (length calls) ?ex")
      case (Inl e)
      with le "1.prems" have "res = Inl (Thrown e)" "calls' = calls @ [?ex]"
        by (simp_all add: cycleLoop.simps[of E ag mx ctx t c h a calls] generate_def)
      with le Inl have "calls' = calls @ [?ex] \<and> cycleInv E ag mx t c a calls res [?ex]"
        by (simp add: cycleInv_def generateCalls_def reviewCalls_def response_def)
      then show ?thesis by blast
    next
      case (Inr raw)
      let ?c = "cleanSpecContent raw"
      let ?rv = "ReviewerRequest t ?c ctx h"
      let ?calls2 = "calls @ [?ex, ?rv]"
      have two: "i < 2 \<Longrightarrow> isExecutor ([?ex, ?rv] ! i) = even i" for i
        by (cases i) auto
      have first: "response E calls [?ex, ?rv] 0 = Inr raw"
        using Inr by (simp add: response_def)
      show ?thesis
      proof (cases "llm E (Suc (length calls)) ?rv")
        case (Inl e)
        with le Inr "1.prems" have "res = Inl (Thrown e)" "calls' = ?calls2"
          by (simp_all add: cycleLoop.simps[of E ag mx ctx t c h a calls] generate_def)
        with le Inl two first have "calls' = calls @ [?ex, ?rv] \<and> cycleInv E ag mx t c a calls res [?ex, ?rv]"
          by (simp add: cycleInv_def generateCalls_def reviewCalls_def response_def)
        then show ?thesis by blast
      next
        case rv: (Inr rtext)
        show ?thesis
        proof (cases "approved (parseReviewResult rtext)")
          case True
          with le Inr rv "1.prems" have
            "res = Inr \<lparr>artifact = Some (mkArtifact ag t ?c (clock E (Suc (length calls)))),
               cyclesUsed = c, cycleApproved = True, cycleFeedbackHistory = h\<rparr>"
            "calls' = ?calls2"
            by (simp_all add: cycleLoop.simps[of E ag mx ctx t c h a calls] generate_def Let_def)
          with le Inr rv True two first
          have "calls' = calls @ [?ex, ?rv] \<and> cycleInv E ag mx t c a calls res [?ex, ?rv]"
            by (simp add: cycleInv_def generateCalls_def reviewCalls_def response_def)
          then show ?thesis by blast
        next
          case False
          let ?h = "h @ [\<lparr>cycle = c, artifactType = t,
                                        reviewerFeedback = feedback (parseReviewResult rtext),
                                        executorResponse = ?c,
                                        timestamp = clock E (length ?calls2)\<rparr>]"
          let ?a = "Some (mkArtifact ag t ?c (clock E (Suc (length calls))))"
          from le Inr rv False "1.prems" have rec:
            "cycleLoop E ag mx ctx t (c + 1) ?h ?a ?calls2 = (res, calls')"
            by (simp add: cycleLoop.simps[of E ag mx ctx t c h a calls] generate_def Let_def)
          have "\<exists>new. calls' = ?calls2 @ new \<and> cycleInv E ag mx t (c + 1) ?a ?calls2 res new"
            using "1.IH"[OF le, of "Inr raw" "calls @ [?ex]" raw ?c
                "mkArtifact ag t ?c (clock E (Suc (length calls)))" "Inr rtext" ?calls2 rtext
                "parseReviewResult rtext" res calls'] Inr rv False rec
            by (simp add: generate_def)
          then obtain new where eq: "calls' = ?calls2 @ new"
            and inv: "cycleInv E ag mx t (c + 1) ?a ?calls2 res new"
            by blast
          have "cycleInv E ag mx t c a calls res ([?ex, ?rv] @ new)"
            by (rule cycleInv_step[OF inv le _ _ Inr _ _ _ rv False]) simp_all
          with eq have "calls' = calls @ ([?ex, ?rv] @ new)
              \<and> cycleInv E ag mx t c a calls res ([?ex, ?rv] @ new)"
            by simp
          then show ?thesis by blast
        qed
      qed
    qed
  qed
qed

lemma generateWithFeedbackCycle_inv:
  assumes "generateWithFeedbackCycle E ag mx ctx t calls = (res, calls')"
  shows "calls' = calls @ drop (length calls) calls'
     \<and> cycleInv E ag mx t 1 None calls res (drop (length calls) calls')"
proof -
  from assms obtain new where "calls' = calls @ new" "cycleInv E ag mx t 1 None calls res new"
    unfolding generateWithFeedbackCycle_def by (blast dest: cycleLoop_inv)
  then show ?thesis by simp
qed

lemma cycle_script3:
  "fst (generateWithFeedbackCycle (scriptedEnv script3) Product 3 emptyContext Contract []) =
     Inr \<lparr>artifact = Some (mkArtifact Product Contract ''draft 3'' 5), cyclesUsed = 3,
          cycleApproved = True,
          cycleFeedbackHistory =
            [\<lparr>cycle = 1, artifactType = Contract, reviewerFeedback = ''shorter'',
              executorResponse = ''draft 1'', timestamp = 2\<rparr>,
             \<lparr>cycle = 2, artifactType = Contract, reviewerFeedback = ''no verdict'',
              executorResponse = ''draft 2'', timestamp = 4\<rparr>]\<rparr>"
  by code_simp

lemma cycle_scriptRejected:
  "fst (generateWithFeedbackCycle (scriptedEnv scriptRejected) Product 3 emptyContext Contract []) =
     Inr \<lparr>artifact = Some (mkArtifact Product Contract ''draft 3'' 5), cyclesUsed = 3,
          cycleApproved = False,
          cycleFeedbackHistory =
            [\<lparr>cycle = 1, artifactType = Contract, reviewerFeedback = ''a'',
              executorResponse = ''draft 1'', timestamp = 2\<rparr>,
             \<lparr>cycle = 2, artifactType = Contract, reviewerFeedback = ''b'',
              executorResponse = ''draft 2'', timestamp = 4\<rparr>,
             \<lparr>cycle = 3, artifactType = Contract, reviewerFeedback = ''c'',
              executorResponse = ''draft 3'', timestamp = 6\<rparr>]\<rparr>"
  by code_simp

section \<open>The feedback cycle: the claims\<close>

text \<open>
  C10. The engine needs \<open>maxFeedbackCycles \<ge> 1\<close>: with a budget of at least one cycle a
  returned result always carries an artifact; with a budget of zero or less the loop body
  never runs, no call is issued, and the result returned (not an error) has the artifact
  \<open>null\<close>, \<open>approved = false\<close> and \<open>cyclesUsed = maxFeedbackCycles\<close>.
\<close>

theorem feedback_cycle_artifact_null_without_budget:
  "(1 \<le> mx \<and> generateWithFeedbackCycle E ag mx ctx t calls = (Inr r, calls')
      \<longrightarrow> artifact r \<noteq> None)
   \<and> (mx \<le> 0 \<longrightarrow> generateWithFeedbackCycle E ag mx ctx t calls =
        (Inr \<lparr>artifact = None, cyclesUsed = mx, cycleApproved = False,
              cycleFeedbackHistory = []\<rparr>, calls))"
proof (intro conjI impI)
  assume a: "1 \<le> mx \<and> generateWithFeedbackCycle E ag mx ctx t calls = (Inr r, calls')"
  let ?new = "drop (length calls) calls'"
  from a generateWithFeedbackCycle_inv[of E ag mx ctx t calls "Inr r" calls']
  have inv: "cycleInv E ag mx t 1 None calls (Inr r) ?new" by blast
  then have cnt: "if cycleApproved r then 1 \<le> cyclesUsed r \<and> cyclesUsed r \<le> mx
                 \<and> generateCalls ?new = nat (cyclesUsed r + 1 - 1)
               else cyclesUsed r = mx \<and> generateCalls ?new = nat (mx + 1 - 1)"
    and art: "if ?new = [] then artifact r = None \<and> \<not> cycleApproved r
      else (\<exists>raw. response E calls ?new (length ?new - 2) = Inr raw
                      \<and> artifact r = Some (mkArtifact ag t (cleanSpecContent raw)
                            (clock E (length calls + length ?new - 1))))
                  \<and> (\<exists>rt. response E calls ?new (length ?new - 1) = Inr rt
                      \<and> approved (parseReviewResult rt) = cycleApproved r)"
    unfolding cycleInv_def by blast+
  have "?new \<noteq> []"
  proof
    assume e: "?new = []"
    then have "generateCalls ?new = 0" by (simp add: generateCalls_def)
    with cnt a show False by (auto split: if_splits)
  qed
  with art show "artifact r \<noteq> None" by auto
next
  assume "mx \<le> 0"
  then show "generateWithFeedbackCycle E ag mx ctx t calls =
        (Inr \<lparr>artifact = None, cyclesUsed = mx, cycleApproved = False,
              cycleFeedbackHistory = []\<rparr>, calls)"
    by (simp add: generateWithFeedbackCycle_def cycleLoop.simps[of E ag mx ctx t 1])
qed

theorem feedback_cycle_artifact_null_without_budget_witness:
  "(\<exists>r calls'. (1::int) \<le> 3
      \<and> generateWithFeedbackCycle (scriptedEnv script3) Product 3 emptyContext Contract [] = (Inr r, calls')
      \<and> artifact r \<noteq> None)
   \<and> (0::int) \<le> 0
   \<and> generateWithFeedbackCycle (scriptedEnv script3) Product 0 emptyContext Contract [] =
        (Inr \<lparr>artifact = None, cyclesUsed = 0, cycleApproved = False,
              cycleFeedbackHistory = []\<rparr>, [])"
proof -
  let ?run = "generateWithFeedbackCycle (scriptedEnv script3) Product 3 emptyContext Contract []"
  obtain r where r: "?run = (Inr r, snd ?run)"
    using cycle_script3 by (metis prod.collapse)
  with feedback_cycle_artifact_null_without_budget[of 3 "scriptedEnv script3" Product emptyContext
      Contract "[]" r "snd ?run"]
  have "artifact r \<noteq> None" by simp
  with r have first: "\<exists>r calls'. (1::int) \<le> 3 \<and> ?run = (Inr r, calls') \<and> artifact r \<noteq> None"
    by (metis one_le_numeral)
  from feedback_cycle_artifact_null_without_budget[of 0 "scriptedEnv script3" Product emptyContext
      Contract "[]"]
  show ?thesis using first by simp
qed

section \<open>Normalization of a generation\<close>








section \<open>Stages and the pipeline: what a run leaves behind\<close>

lemma cycle_first_call:
  assumes "1 \<le> mx" and "generateWithFeedbackCycle E ag mx ctx t calls = (res, calls')"
  shows "\<exists>rest. calls' = calls @ ExecutorRequest ag ctx t [] # rest"
proof -
  let ?ex = "ExecutorRequest ag ctx t []"
  from assms(2) have run: "cycleLoop E ag mx ctx t 1 [] None calls = (res, calls')"
    by (simp add: generateWithFeedbackCycle_def)
  show ?thesis
  proof (cases "llm E (length calls) ?ex")
    case (Inl e)
    with assms(1) run have "calls' = calls @ [?ex]"
      by (simp add: cycleLoop.simps[of E ag mx ctx t 1] generate_def)
    then show ?thesis by blast
  next
    case (Inr raw)
    let ?rv = "ReviewerRequest t (cleanSpecContent raw) ctx []"
    show ?thesis
    proof (cases "llm E (Suc (length calls)) ?rv")
      case (Inl e)
      with assms(1) run Inr have "calls' = calls @ [?ex, ?rv]"
        by (simp add: cycleLoop.simps[of E ag mx ctx t 1] generate_def)
      then show ?thesis by simp
    next
      case rv: (Inr rtext)
      show ?thesis
      proof (cases "approved (parseReviewResult rtext)")
        case True
        with assms(1) run Inr rv have "calls' = calls @ [?ex, ?rv]"
          by (simp add: cycleLoop.simps[of E ag mx ctx t 1] generate_def Let_def)
        then show ?thesis by simp
      next
        case False
        with assms(1) run Inr rv obtain h a where
          "cycleLoop E ag mx ctx t (1 + 1) h a (calls @ [?ex, ?rv]) = (res, calls')"
          by (simp add: cycleLoop.simps[of E ag mx ctx t 1] generate_def Let_def)
        from cycleLoop_inv[OF this] obtain new where "calls' = (calls @ [?ex, ?rv]) @ new"
          by blast
        then show ?thesis by simp
      qed
    qed
  qed
qed

lemma cycle_result_artifact:
  assumes "1 \<le> mx" and "generateWithFeedbackCycle E ag mx ctx t calls = (Inr r, calls')"
  shows "\<exists>a. artifact r = Some a \<and> irType a = t"
proof -
  let ?new = "drop (length calls) calls'"
  from generateWithFeedbackCycle_inv[OF assms(2)]
  have inv: "cycleInv E ag mx t 1 None calls (Inr r) ?new" by blast
  then have cnt: "if cycleApproved r then 1 \<le> cyclesUsed r \<and> cyclesUsed r \<le> mx
                 \<and> generateCalls ?new = nat (cyclesUsed r + 1 - 1)
               else cyclesUsed r = mx \<and> generateCalls ?new = nat (mx + 1 - 1)"
    and art: "if ?new = [] then artifact r = None \<and> \<not> cycleApproved r
      else (\<exists>raw. response E calls ?new (length ?new - 2) = Inr raw
                      \<and> artifact r = Some (mkArtifact ag t (cleanSpecContent raw)
                            (clock E (length calls + length ?new - 1))))
                  \<and> (\<exists>rt. response E calls ?new (length ?new - 1) = Inr rt
                      \<and> approved (parseReviewResult rt) = cycleApproved r)"
    unfolding cycleInv_def by blast+
  have "?new \<noteq> []"
  proof
    assume e: "?new = []"
    then have "generateCalls ?new = 0" by (simp add: generateCalls_def)
    with cnt assms(1) show False by (auto split: if_splits)
  qed
  with art show ?thesis by (auto simp: mkArtifact_def)
qed

lemma cycle_targets:
  assumes "generateWithFeedbackCycle E ag mx ctx t calls = (res, calls')"
  shows "\<exists>new. calls' = calls @ new \<and> (\<forall>q \<in> set new. target q = t)"
proof -
  from generateWithFeedbackCycle_inv[OF assms]
  have "calls' = calls @ drop (length calls) calls'"
    and "\<forall>q \<in> set (drop (length calls) calls'). target q = t"
    unfolding cycleInv_def by blast+
  then show ?thesis by blast
qed

lemma cycle_no_throw:
  assumes "\<forall>n q. \<exists>s. llm E n q = Inr s"
    and "generateWithFeedbackCycle E ag mx ctx t calls = (res, calls')"
  shows "\<exists>r. res = Inr r"
proof (cases res)
  case (Inl e)
  let ?new = "drop (length calls) calls'"
  from generateWithFeedbackCycle_inv[OF assms(2)] Inl
  have "\<exists>m. response E calls ?new (length ?new - 1) = Inl m"
    unfolding cycleInv_def by blast
  with assms(1) show ?thesis by (metis response_def Inl_Inr_False)
next
  case (Inr r)
  then show ?thesis by blast
qed

lemma executeLoop_inv:
  "executeLoop E ag mx ctx ts arts calls = ((res, ctx'), calls') \<Longrightarrow>
     \<exists>new. calls' = calls @ new \<and> (\<forall>q \<in> set new. target q \<in> set ts)
        \<and> (1 \<le> mx \<longrightarrow> ts \<noteq> [] \<longrightarrow> (\<exists>rest. new = ExecutorRequest ag ctx (hd ts) [] # rest))
        \<and> (1 \<le> mx \<longrightarrow> success res \<longrightarrow> (\<exists>xs. artifacts res = arts @ map Some xs \<and> map irType xs = ts))
        \<and> ((\<forall>n q. \<exists>s. llm E n q = Inr s) \<longrightarrow> success res)"
proof (induction ts arbitrary: ctx arts calls)
  case Nil
  then have "res = \<lparr>artifacts = arts, success = True, error = None\<rparr>" "calls' = calls"
    by simp_all
  then show ?case by simp
next
  case (Cons t ts)
  obtain r1 calls1 where g: "generateWithFeedbackCycle E ag mx ctx t calls = (r1, calls1)"
    by (cases "generateWithFeedbackCycle E ag mx ctx t calls")
  from cycle_targets[OF g] obtain new1 where n1: "calls1 = calls @ new1"
    "\<forall>q \<in> set new1. target q = t" by blast
  have first: "1 \<le> mx \<Longrightarrow> \<exists>rest. new1 = ExecutorRequest ag ctx t [] # rest"
    using cycle_first_call[OF _ g] n1(1) by auto
  show ?case
  proof (cases r1)
    case (Inl e)
    with g Cons.prems have res: "res = \<lparr>artifacts = arts, success = False, error = Some e\<rparr>"
      and c: "calls' = calls1" by simp_all
    from cycle_no_throw[OF _ g] Inl have nt: "\<not> (\<forall>n q. \<exists>s. llm E n q = Inr s)" by blast
    have "calls' = calls @ new1" using c n1 by simp
    moreover have "\<forall>q \<in> set new1. target q \<in> set (t # ts)" using n1 by simp
    moreover have "1 \<le> mx \<longrightarrow> t # ts \<noteq> [] \<longrightarrow>
         (\<exists>rest. new1 = ExecutorRequest ag ctx (hd (t # ts)) [] # rest)"
      using first by simp
    moreover have "1 \<le> mx \<longrightarrow> success res \<longrightarrow>
         (\<exists>xs. artifacts res = arts @ map Some xs \<and> map irType xs = t # ts)"
      using res by simp
    moreover have "(\<forall>n q. \<exists>s. llm E n q = Inr s) \<longrightarrow> success res"
      using nt by blast
    ultimately show ?thesis by (intro exI[of _ new1] conjI)
  next
    case (Inr r)
    let ?ctx = "ctx\<lparr>previousArtifacts := mapSet t (artifact r) (previousArtifacts ctx)\<rparr>"
    from g Inr Cons.prems have rec:
      "executeLoop E ag mx ?ctx ts (arts @ [artifact r]) calls1 = ((res, ctx'), calls')"
      by simp
    from Cons.IH[OF rec] obtain new2 where n2: "calls' = calls1 @ new2"
      "\<forall>q \<in> set new2. target q \<in> set ts"
      and s2: "1 \<le> mx \<longrightarrow> success res \<longrightarrow>
         (\<exists>xs. artifacts res = (arts @ [artifact r]) @ map Some xs \<and> map irType xs = ts)"
      and nt2: "(\<forall>n q. \<exists>s. llm E n q = Inr s) \<longrightarrow> success res"
      by blast
    have s: "\<exists>xs. artifacts res = arts @ map Some xs \<and> map irType xs = t # ts"
      if mx: "1 \<le> mx" and ok: "success res"
    proof -
      from cycle_result_artifact[OF mx] g Inr obtain a where a: "artifact r = Some a" "irType a = t"
        by blast
      from s2 mx ok obtain xs where "artifacts res = (arts @ [artifact r]) @ map Some xs"
        "map irType xs = ts" by blast
      with a have "artifacts res = arts @ map Some (a # xs) \<and> map irType (a # xs) = t # ts"
        by simp
      then show ?thesis by (rule exI)
    qed
    have "calls' = calls @ (new1 @ new2)" using n1 n2 by simp
    moreover have "\<forall>q \<in> set (new1 @ new2). target q \<in> set (t # ts)" using n1 n2 by auto
    moreover have "1 \<le> mx \<longrightarrow> t # ts \<noteq> [] \<longrightarrow>
         (\<exists>rest. new1 @ new2 = ExecutorRequest ag ctx (hd (t # ts)) [] # rest)"
      using first by auto
    moreover have "1 \<le> mx \<longrightarrow> success res \<longrightarrow>
         (\<exists>xs. artifacts res = arts @ map Some xs \<and> map irType xs = t # ts)"
      using s by (intro impI)
    ultimately show ?thesis using nt2 by (intro exI[of _ "new1 @ new2"] conjI)
  qed
qed

lemma addArtifacts_Some:
  "addArtifacts (map Some xs) allArtifacts prev =
     (Inr (), allArtifacts @ map Some xs, fold (\<lambda>a m. mapSet (irType a) (Some a) m) xs prev)"
  by (induction xs arbitrary: allArtifacts prev) auto

lemma length_AGENT_ORDER: "length AGENT_ORDER = 6"
  by (simp add: AGENT_ORDER_def)

declare pipelineLoop.simps [simp del]

lemma outputsFrom_step:
  assumes "0 \<le> i" "i < 6"
  shows "outputsFrom i = getOutputIRTypes (AGENT_ORDER ! nat i) @ outputsFrom (i + 1)"
proof -
  from assms have "nat i < length AGENT_ORDER" by (simp add: length_AGENT_ORDER)
  then have "drop (nat i) AGENT_ORDER = AGENT_ORDER ! nat i # drop (Suc (nat i)) AGENT_ORDER"
    by (rule Cons_nth_drop_Suc[symmetric])
  moreover from assms have "nat (i + 1) = Suc (nat i)" by simp
  ultimately show ?thesis by (simp add: outputsFrom_def)
qed

lemma outputsFrom_done: "6 \<le> i \<Longrightarrow> outputsFrom i = []"
  by (simp add: outputsFrom_def length_AGENT_ORDER)

lemma getOutputIRTypes_nonempty: "getOutputIRTypes ag \<noteq> []"
  by (cases ag) simp_all
lemma pipelineLoop_done:
  "6 \<le> i \<Longrightarrow> pipelineLoop E mx ctx i allArtifacts calls =
     (Inr \<lparr>pipelineSuccess = True, pipelineArtifacts = allArtifacts, pipelineError = None\<rparr>, calls)"
  by (simp add: pipelineLoop.simps[of E mx ctx i] length_AGENT_ORDER)

lemma pipelineLoop_negative:
  "i < 0 \<Longrightarrow> pipelineLoop E mx ctx i allArtifacts calls = (Inl UnknownAgentType, calls)"
  by (simp add: pipelineLoop.simps[of E mx ctx i] length_AGENT_ORDER)

lemma pipelineLoop_stage:
  assumes "0 \<le> i" "i < 6"
    and "execute E (AGENT_ORDER ! nat i) mx ctx calls = ((result, ctx1), calls1)"
  shows "pipelineLoop E mx ctx i allArtifacts calls =
     (if \<not> success result then
        (Inr \<lparr>pipelineSuccess = False, pipelineArtifacts = allArtifacts,
              pipelineError = error result\<rparr>, calls1)
      else
        (case addArtifacts (artifacts result) allArtifacts (previousArtifacts ctx1) of
           (Inl e, all1, prev1) \<Rightarrow>
             (Inr \<lparr>pipelineSuccess = False, pipelineArtifacts = all1, pipelineError = Some e\<rparr>,
              calls1)
         | (Inr u, all1, prev1) \<Rightarrow>
             pipelineLoop E mx (ctx1\<lparr>previousArtifacts := prev1\<rparr>) (i + 1) all1 calls1))"
  using assms by (simp add: pipelineLoop.simps[of E mx ctx i] length_AGENT_ORDER)

text \<open>What a run of the stage loop from stage index \<open>i\<close> leaves behind.\<close>

lemma pipelineLoop_inv:
  assumes "pipelineLoop E mx ctx i allArtifacts calls = (res, calls')" and "0 \<le> i"
  shows "\<exists>new. calls' = calls @ new \<and> (\<forall>q \<in> set new. target q \<in> set (outputsFrom i))
       \<and> (1 \<le> mx \<longrightarrow> i < 6 \<longrightarrow>
            (\<exists>rest. new = ExecutorRequest (AGENT_ORDER ! nat i) ctx
                (hd (getOutputIRTypes (AGENT_ORDER ! nat i))) [] # rest))
       \<and> (\<exists>r. res = Inr r
            \<and> (1 \<le> mx \<longrightarrow> (\<exists>xs. pipelineArtifacts r = allArtifacts @ map Some xs
                   \<and> prefix (map irType xs) (outputsFrom i)
                   \<and> (pipelineSuccess r \<longrightarrow> map irType xs = outputsFrom i)))
            \<and> (1 \<le> mx \<longrightarrow> (\<forall>n q. \<exists>s. llm E n q = Inr s) \<longrightarrow> pipelineSuccess r))"
  using assms
proof (induction "nat (6 - i)" arbitrary: i ctx allArtifacts calls)
  case 0
  then have "6 \<le> i" by simp
  with "0.prems" pipelineLoop_done[of i E mx ctx allArtifacts calls]
  have r: "res = Inr \<lparr>pipelineSuccess = True, pipelineArtifacts = allArtifacts, pipelineError = None\<rparr>"
    and c: "calls' = calls" by simp_all
  have o: "outputsFrom i = []" using \<open>6 \<le> i\<close> by (rule outputsFrom_done)
  have "calls' = calls @ []" using c by simp
  moreover have "\<exists>xs. allArtifacts = allArtifacts @ map Some xs \<and> map irType xs = []"
    by (rule exI[of _ "[]"]) simp
  ultimately show ?case using r o \<open>6 \<le> i\<close> by (intro exI[of _ "[]"]) simp
next
  case (Suc n)
  then have i: "0 \<le> i" "i < 6" and n: "n = nat (6 - (i + 1))" by simp_all
  let ?ag = "AGENT_ORDER ! nat i"
  obtain result ctx1 calls1 where ex: "execute E ?ag mx ctx calls = ((result, ctx1), calls1)"
    by (metis prod.collapse)
  from ex have "executeLoop E ?ag mx ctx (getOutputIRTypes ?ag) [] calls = ((result, ctx1), calls1)"
    by (simp add: execute_def)
  from executeLoop_inv[OF this] getOutputIRTypes_nonempty[of ?ag]
  obtain new1 where n1: "calls1 = calls @ new1"
    "\<forall>q \<in> set new1. target q \<in> set (getOutputIRTypes ?ag)"
    and f1: "1 \<le> mx \<longrightarrow> (\<exists>rest. new1 = ExecutorRequest ?ag ctx (hd (getOutputIRTypes ?ag)) [] # rest)"
    and s1: "1 \<le> mx \<longrightarrow> success result \<longrightarrow>
        (\<exists>xs. artifacts result = [] @ map Some xs \<and> map irType xs = getOutputIRTypes ?ag)"
    and nt1: "(\<forall>n q. \<exists>s. llm E n q = Inr s) \<longrightarrow> success result"
    by blast
  note step = pipelineLoop_stage[OF i ex, of allArtifacts]
  note out = outputsFrom_step[OF i]
  have t1: "\<forall>q \<in> set new1. target q \<in> set (outputsFrom i)"
    using n1(2) out by simp
  have stop: ?case
    if r: "res = Inr r" and c: "calls' = calls1" and a: "1 \<le> mx \<longrightarrow> pipelineArtifacts r = allArtifacts"
      and f: "\<not> pipelineSuccess r" and nt: "1 \<le> mx \<longrightarrow> (\<forall>n q. \<exists>s. llm E n q = Inr s) \<longrightarrow> False"
    for r
  proof -
    have "calls' = calls @ new1" using c n1 by simp
    moreover have "1 \<le> mx \<longrightarrow> i < 6 \<longrightarrow>
            (\<exists>rest. new1 = ExecutorRequest ?ag ctx (hd (getOutputIRTypes ?ag)) [] # rest)"
      using f1 by simp
    moreover have "1 \<le> mx \<longrightarrow> (\<exists>xs. pipelineArtifacts r = allArtifacts @ map Some xs
                   \<and> prefix (map irType xs) (outputsFrom i)
                   \<and> (pipelineSuccess r \<longrightarrow> map irType xs = outputsFrom i))"
    proof
      assume "1 \<le> mx"
      with a f have "pipelineArtifacts r = allArtifacts @ map Some []
                   \<and> prefix (map irType []) (outputsFrom i)
                   \<and> (pipelineSuccess r \<longrightarrow> map irType [] = outputsFrom i)" by simp
      then show "\<exists>xs. pipelineArtifacts r = allArtifacts @ map Some xs
                   \<and> prefix (map irType xs) (outputsFrom i)
                   \<and> (pipelineSuccess r \<longrightarrow> map irType xs = outputsFrom i)" by (rule exI)
    qed
    moreover have "1 \<le> mx \<longrightarrow> (\<forall>n q. \<exists>s. llm E n q = Inr s) \<longrightarrow> pipelineSuccess r"
      using nt by blast
    ultimately show ?thesis using t1 r by (intro exI[of _ new1] exI[of _ r] conjI)
  qed
  show ?case
  proof (cases "success result")
    case False
    with step Suc.prems(1) have
      "res = Inr \<lparr>pipelineSuccess = False, pipelineArtifacts = allArtifacts,
                  pipelineError = error result\<rparr>" "calls' = calls1"
      by simp_all
    then show ?thesis using False nt1 by (intro stop) auto
  next
    case ok: True
    obtain o1 all1 prev1 where add:
      "addArtifacts (artifacts result) allArtifacts (previousArtifacts ctx1) = (o1, all1, prev1)"
      by (metis prod.collapse)
    have some: "\<exists>xs. artifacts result = map Some xs \<and> map irType xs = getOutputIRTypes ?ag
        \<and> o1 = Inr () \<and> all1 = allArtifacts @ map Some xs" if mx: "1 \<le> mx"
    proof -
      from s1 mx ok obtain xs where xs: "artifacts result = map Some xs"
        "map irType xs = getOutputIRTypes ?ag" by auto
      with add addArtifacts_Some[of xs allArtifacts "previousArtifacts ctx1"]
      have "o1 = Inr () \<and> all1 = allArtifacts @ map Some xs" by simp
      with xs show ?thesis by blast
    qed
    show ?thesis
    proof (cases o1)
      case (Inl e)
      with step ok add Suc.prems(1) have
        "res = Inr \<lparr>pipelineSuccess = False, pipelineArtifacts = all1, pipelineError = Some e\<rparr>"
        "calls' = calls1"
        by simp_all
      moreover have "\<not> 1 \<le> mx" using some Inl by auto
      ultimately show ?thesis by (intro stop) auto
    next
      case (Inr u)
      let ?ctx = "ctx1\<lparr>previousArtifacts := prev1\<rparr>"
      from step ok add Inr Suc.prems(1)
      have rec: "pipelineLoop E mx ?ctx (i + 1) all1 calls1 = (res, calls')" by simp
      have "0 \<le> i + 1" using i by simp
      from Suc.hyps(1)[OF n rec this] obtain new2 r where
        n2: "calls' = calls1 @ new2" "\<forall>q \<in> set new2. target q \<in> set (outputsFrom (i + 1))"
        and r: "res = Inr r"
        and a2: "1 \<le> mx \<longrightarrow> (\<exists>xs. pipelineArtifacts r = all1 @ map Some xs
                   \<and> prefix (map irType xs) (outputsFrom (i + 1))
                   \<and> (pipelineSuccess r \<longrightarrow> map irType xs = outputsFrom (i + 1)))"
        and nt2: "1 \<le> mx \<longrightarrow> (\<forall>n q. \<exists>s. llm E n q = Inr s) \<longrightarrow> pipelineSuccess r"
        by blast
      have "calls' = calls @ (new1 @ new2)" using n1 n2 by simp
      moreover have "\<forall>q \<in> set (new1 @ new2). target q \<in> set (outputsFrom i)"
        using t1 n2(2) out by auto
      moreover have "1 \<le> mx \<longrightarrow> i < 6 \<longrightarrow>
            (\<exists>rest. new1 @ new2 = ExecutorRequest ?ag ctx (hd (getOutputIRTypes ?ag)) [] # rest)"
        using f1 by auto
      moreover have "1 \<le> mx \<longrightarrow> (\<exists>xs. pipelineArtifacts r = allArtifacts @ map Some xs
                   \<and> prefix (map irType xs) (outputsFrom i)
                   \<and> (pipelineSuccess r \<longrightarrow> map irType xs = outputsFrom i))"
      proof
        assume mx: "1 \<le> mx"
        from some[OF mx] obtain xs1 where x1: "map irType xs1 = getOutputIRTypes ?ag"
          "all1 = allArtifacts @ map Some xs1" by blast
        from a2 mx obtain xs2 where x2: "pipelineArtifacts r = all1 @ map Some xs2"
          "prefix (map irType xs2) (outputsFrom (i + 1))"
          "pipelineSuccess r \<longrightarrow> map irType xs2 = outputsFrom (i + 1)" by blast
        from x1 x2 out have "pipelineArtifacts r = allArtifacts @ map Some (xs1 @ xs2)
                   \<and> prefix (map irType (xs1 @ xs2)) (outputsFrom i)
                   \<and> (pipelineSuccess r \<longrightarrow> map irType (xs1 @ xs2) = outputsFrom i)"
          by simp
        then show "\<exists>xs. pipelineArtifacts r = allArtifacts @ map Some xs
                   \<and> prefix (map irType xs) (outputsFrom i)
                   \<and> (pipelineSuccess r \<longrightarrow> map irType xs = outputsFrom i)" by (rule exI)
      qed
      ultimately show ?thesis using r nt2 by (intro exI[of _ "new1 @ new2"] exI[of _ r] conjI)
    qed
  qed
qed

section \<open>Resume: the seeded artifacts\<close>










lemma Pipeline_execute_inv:
  assumes "Pipeline_execute E mx up mn sid n existing calls = (res, calls')" and "0 \<le> n"
  shows "\<exists>new. calls' = calls @ new \<and> (\<forall>q \<in> set new. target q \<in> set (outputsFrom n))
       \<and> (1 \<le> mx \<longrightarrow> n < 6 \<longrightarrow>
            (\<exists>rest. new = ExecutorRequest (AGENT_ORDER ! nat n)
                \<lparr>sessionId = sid, moduleName = mn, userPrompt = up,
                  previousArtifacts = (case existing of None \<Rightarrow> []
                     | Some m \<Rightarrow> newMap (map (\<lambda>(k, a). (k, Some a)) m)),
                  feedbackHistory = []\<rparr>
                (hd (getOutputIRTypes (AGENT_ORDER ! nat n))) [] # rest))
       \<and> (\<exists>r. res = Inr r
            \<and> (1 \<le> mx \<longrightarrow> (\<exists>xs. pipelineArtifacts r =
                     (case existing of None \<Rightarrow> [] | Some m \<Rightarrow> map (Some \<circ> snd) m) @ map Some xs
                   \<and> prefix (map irType xs) (outputsFrom n)
                   \<and> (pipelineSuccess r \<longrightarrow> map irType xs = outputsFrom n)))
            \<and> (1 \<le> mx \<longrightarrow> (\<forall>n q. \<exists>s. llm E n q = Inr s) \<longrightarrow> pipelineSuccess r))"
  using assms(1) unfolding Pipeline_execute_def Let_def by (rule pipelineLoop_inv) (rule assms(2))

section \<open>The context of the requests of a run\<close>








section \<open>Resume and the pipeline: the claims\<close>












section \<open>Runs in which no review approves\<close>

lemma generateCalls_append: "generateCalls (xs @ ys) = generateCalls xs + generateCalls ys"
  by (simp add: generateCalls_def)

lemma reviewCalls_append: "reviewCalls (xs @ ys) = reviewCalls xs + reviewCalls ys"
  by (simp add: reviewCalls_def)

lemma holdsGeneration_left:
  "i < length new1 \<Longrightarrow>
     holdsGeneration E calls (new1 @ new2) i x = holdsGeneration E calls new1 i x"
  by (simp add: holdsGeneration_def response_def nth_append)

lemma holdsGeneration_right:
  "holdsGeneration E calls (new1 @ new2) (length new1 + i) x
     = holdsGeneration E (calls @ new1) new2 i x"
  by (simp add: holdsGeneration_def response_def nth_append add.assoc)

lemma lastGeneration_shift:
  assumes "1 \<le> mx"
  shows "lastGeneration mx (a + j) = 2 * nat mx * a + lastGeneration mx j"
proof -
  from assms obtain m where m: "nat mx = Suc m" by (cases "nat mx") simp_all
  show ?thesis unfolding lastGeneration_def m by (simp add: algebra_simps)
qed

lemma lastGeneration_less:
  assumes "1 \<le> mx" "j < n"
  shows "lastGeneration mx j < 2 * nat mx * n"
proof -
  from assms(1) obtain m where m: "nat mx = Suc m" by (cases "nat mx") simp_all
  from assms(2) have "j + 1 \<le> n" by simp
  then have "2 * Suc m * (j + 1) \<le> 2 * Suc m * n" by (rule mult_le_mono2)
  moreover have "2 * Suc m * (j + 1) - 2 < 2 * Suc m * (j + 1)" by simp
  ultimately show ?thesis unfolding lastGeneration_def m by linarith
qed

lemma cycle_exhausted:
  assumes "1 \<le> mx"
    and na: "\<forall>n q. \<exists>s. llm E n q = Inr s \<and> (\<not> isExecutor q \<longrightarrow> \<not> approved (parseReviewResult s))"
    and run: "generateWithFeedbackCycle E ag mx ctx t calls = (res, calls')"
  shows "\<exists>r new x. res = Inr r \<and> calls' = calls @ new \<and> length new = 2 * nat mx
     \<and> generateCalls new = nat mx \<and> reviewCalls new = nat mx
     \<and> \<not> cycleApproved r \<and> cyclesUsed r = mx \<and> artifact r = Some x \<and> irType x = t
     \<and> holdsGeneration E calls new (lastGeneration mx 0) x"
proof -
  let ?new = "drop (length calls) calls'"
  from na have nothrow: "\<forall>n q. \<exists>s. llm E n q = Inr s" by blast
  from cycle_no_throw[OF nothrow run] obtain r where r: "res = Inr r" by blast
  from generateWithFeedbackCycle_inv[OF run] r
  have eq: "calls' = calls @ ?new" and inv: "cycleInv E ag mx t 1 None calls (Inr r) ?new"
    by blast+
  from inv have tg: "\<forall>q \<in> set ?new. target q = t"
    and alt: "\<forall>i < length ?new. isExecutor (?new ! i) = even i"
    and cnt: "reviewCalls ?new = generateCalls ?new" "length ?new = 2 * generateCalls ?new"
    and used: "if cycleApproved r then 1 \<le> cyclesUsed r \<and> cyclesUsed r \<le> mx
                 \<and> generateCalls ?new = nat (cyclesUsed r + 1 - 1)
               else cyclesUsed r = mx \<and> generateCalls ?new = nat (mx + 1 - 1)"
    and art: "if ?new = [] then artifact r = None \<and> \<not> cycleApproved r
      else (\<exists>raw. response E calls ?new (length ?new - 2) = Inr raw
                      \<and> artifact r = Some (mkArtifact ag t (cleanSpecContent raw)
                            (clock E (length calls + length ?new - 1))))
                  \<and> (\<exists>rt. response E calls ?new (length ?new - 1) = Inr rt
                      \<and> approved (parseReviewResult rt) = cycleApproved r)"
    unfolding cycleInv_def by blast+
  have no: "\<not> cycleApproved r"
  proof (cases "?new = []")
    case True
    with art show ?thesis by simp
  next
    case False
    with cnt have odd: "odd (length ?new - 1)" "length ?new - 1 < length ?new"
      by (cases "generateCalls ?new"; simp)+
    with alt have rv: "\<not> isExecutor (?new ! (length ?new - 1))" by blast
    from False art obtain rt where rt: "response E calls ?new (length ?new - 1) = Inr rt"
      "approved (parseReviewResult rt) = cycleApproved r" by auto
    from na rv rt(1) have "\<not> approved (parseReviewResult rt)"
      unfolding response_def by (metis sum.inject(2))
    with rt(2) show ?thesis by simp
  qed
  with used have k: "cyclesUsed r = mx" "generateCalls ?new = nat mx" by simp_all
  with cnt have len: "length ?new = 2 * nat mx" "reviewCalls ?new = nat mx" by simp_all
  from assms(1) obtain m where m: "nat mx = Suc m" by (cases "nat mx") simp_all
  from len m have ne: "?new \<noteq> []" by auto
  with art obtain raw where raw: "response E calls ?new (length ?new - 2) = Inr raw"
    "artifact r = Some (mkArtifact ag t (cleanSpecContent raw)
                            (clock E (length calls + length ?new - 1)))"
    by auto
  let ?x = "mkArtifact ag t (cleanSpecContent raw) (clock E (length calls + length ?new - 1))"
  have i: "lastGeneration mx 0 = length ?new - 2" "lastGeneration mx 0 < length ?new"
    "even (lastGeneration mx 0)"
    unfolding lastGeneration_def len m by simp_all
  from i(2) have "?new ! lastGeneration mx 0 \<in> set ?new" by (rule nth_mem)
  with tg have "target (?new ! lastGeneration mx 0) = t" by blast
  moreover from alt i have "isExecutor (?new ! lastGeneration mx 0)" by blast
  ultimately have "holdsGeneration E calls ?new (lastGeneration mx 0) ?x"
    using i(2) raw(1) unfolding i(1) by (simp add: holdsGeneration_def mkArtifact_def)
  moreover have "irType ?x = t" by (simp add: mkArtifact_def)
  ultimately show ?thesis using r eq len k no raw(2) by blast
qed

lemma executeLoop_exhausted:
  assumes "1 \<le> mx"
    and na: "\<forall>n q. \<exists>s. llm E n q = Inr s \<and> (\<not> isExecutor q \<longrightarrow> \<not> approved (parseReviewResult s))"
  shows "executeLoop E ag mx ctx ts arts calls = ((res, ctx'), calls') \<Longrightarrow>
     \<exists>new xs. calls' = calls @ new \<and> length new = 2 * nat mx * length ts
        \<and> generateCalls new = nat mx * length ts \<and> reviewCalls new = nat mx * length ts
        \<and> success res \<and> artifacts res = arts @ map Some xs \<and> map irType xs = ts
        \<and> (\<forall>j < length ts. holdsGeneration E calls new (lastGeneration mx j) (xs ! j))"
proof (induction ts arbitrary: ctx arts calls)
  case Nil
  then have "res = \<lparr>artifacts = arts, success = True, error = None\<rparr>" "calls' = calls"
    by simp_all
  then show ?case
    by (intro exI[of _ "[]"]) (simp add: generateCalls_def reviewCalls_def)
next
  case (Cons t ts)
  obtain r1 calls1 where g: "generateWithFeedbackCycle E ag mx ctx t calls = (r1, calls1)"
    by (cases "generateWithFeedbackCycle E ag mx ctx t calls")
  from cycle_exhausted[OF assms g] obtain r new1 x where r: "r1 = Inr r"
    and n1: "calls1 = calls @ new1" "length new1 = 2 * nat mx"
      "generateCalls new1 = nat mx" "reviewCalls new1 = nat mx"
    and x: "artifact r = Some x" "irType x = t"
      "holdsGeneration E calls new1 (lastGeneration mx 0) x"
    by blast
  let ?ctx = "ctx\<lparr>previousArtifacts := mapSet t (artifact r) (previousArtifacts ctx)\<rparr>"
  from g r Cons.prems have rec:
    "executeLoop E ag mx ?ctx ts (arts @ [artifact r]) calls1 = ((res, ctx'), calls')"
    by simp
  from Cons.IH[OF rec] obtain new2 xs where n2: "calls' = calls1 @ new2"
    "length new2 = 2 * nat mx * length ts"
    "generateCalls new2 = nat mx * length ts" "reviewCalls new2 = nat mx * length ts"
    and ok: "success res" and a2: "artifacts res = (arts @ [artifact r]) @ map Some xs"
    "map irType xs = ts"
    and h2: "\<forall>j < length ts. holdsGeneration E calls1 new2 (lastGeneration mx j) (xs ! j)"
    by blast
  have hold: "holdsGeneration E calls (new1 @ new2) (lastGeneration mx j) ((x # xs) ! j)"
    if j: "j < length (t # ts)" for j
  proof (cases j)
    case 0
    from lastGeneration_less[OF assms(1), of 0 1] n1(2)
    have "lastGeneration mx 0 < length new1" by simp
    from holdsGeneration_left[OF this] x(3) 0 show ?thesis by simp
  next
    case (Suc j')
    with j have "j' < length ts" by simp
    with h2 have "holdsGeneration E (calls @ new1) new2 (lastGeneration mx j') (xs ! j')"
      unfolding n1(1) by blast
    then have "holdsGeneration E calls (new1 @ new2) (length new1 + lastGeneration mx j') (xs ! j')"
      by (simp only: holdsGeneration_right)
    moreover have "lastGeneration mx (Suc j') = length new1 + lastGeneration mx j'"
      using lastGeneration_shift[OF assms(1), of 1 j'] n1(2) by simp
    ultimately show ?thesis using Suc by simp
  qed
  have "calls' = calls @ (new1 @ new2)" using n1(1) n2(1) by simp
  moreover have "length (new1 @ new2) = 2 * nat mx * length (t # ts)"
    using n1(2) n2(2) by simp
  moreover have "generateCalls (new1 @ new2) = nat mx * length (t # ts)"
    "reviewCalls (new1 @ new2) = nat mx * length (t # ts)"
    using n1(3,4) n2(3,4) by (simp_all add: generateCalls_append reviewCalls_append)
  moreover have "artifacts res = arts @ map Some (x # xs)" "map irType (x # xs) = t # ts"
    using a2 x(1,2) by simp_all
  ultimately show ?case using ok hold
    by (intro exI[of _ "new1 @ new2"] exI[of _ "x # xs"]) blast
qed

lemma pipelineLoop_exhausted:
  assumes "1 \<le> mx"
    and na: "\<forall>n q. \<exists>s. llm E n q = Inr s \<and> (\<not> isExecutor q \<longrightarrow> \<not> approved (parseReviewResult s))"
    and "pipelineLoop E mx ctx i allArtifacts calls = (res, calls')" and "0 \<le> i"
  shows "\<exists>new r xs. res = Inr r \<and> calls' = calls @ new \<and> pipelineSuccess r
        \<and> pipelineArtifacts r = allArtifacts @ map Some xs \<and> map irType xs = outputsFrom i
        \<and> length new = 2 * nat mx * length (outputsFrom i)
        \<and> generateCalls new = nat mx * length (outputsFrom i)
        \<and> reviewCalls new = nat mx * length (outputsFrom i)
        \<and> (\<forall>j < length (outputsFrom i). holdsGeneration E calls new (lastGeneration mx j) (xs ! j))"
  using assms(3,4)
proof (induction "nat (6 - i)" arbitrary: i ctx allArtifacts calls)
  case 0
  then have "6 \<le> i" by simp
  with "0.prems" pipelineLoop_done[of i E mx ctx allArtifacts calls] outputsFrom_done[of i]
  have "res = Inr \<lparr>pipelineSuccess = True, pipelineArtifacts = allArtifacts, pipelineError = None\<rparr>"
    "calls' = calls" "outputsFrom i = []" by simp_all
  then show ?case
    by (intro exI[of _ "[]"]) (simp add: generateCalls_def reviewCalls_def)
next
  case (Suc n)
  then have i: "0 \<le> i" "i < 6" and n: "n = nat (6 - (i + 1))" by simp_all
  let ?ag = "AGENT_ORDER ! nat i"
  let ?ts = "getOutputIRTypes ?ag"
  obtain result ctx1 calls1 where ex: "execute E ?ag mx ctx calls = ((result, ctx1), calls1)"
    by (metis prod.collapse)
  then have el: "executeLoop E ?ag mx ctx ?ts [] calls = ((result, ctx1), calls1)"
    by (simp add: execute_def)
  from executeLoop_exhausted[OF assms(1,2) el] obtain new1 xs1 where
    n1: "calls1 = calls @ new1" "length new1 = 2 * nat mx * length ?ts"
      "generateCalls new1 = nat mx * length ?ts" "reviewCalls new1 = nat mx * length ?ts"
    and ok: "success result" and a1: "artifacts result = map Some xs1" "map irType xs1 = ?ts"
    and h1: "\<forall>j < length ?ts. holdsGeneration E calls new1 (lastGeneration mx j) (xs1 ! j)"
    by auto
  note out = outputsFrom_step[OF i]
  let ?prev = "fold (\<lambda>a m. mapSet (irType a) (Some a) m) xs1 (previousArtifacts ctx1)"
  let ?ctx = "ctx1\<lparr>previousArtifacts := ?prev\<rparr>"
  from pipelineLoop_stage[OF i ex, of allArtifacts] ok a1(1) Suc.prems(1)
  have rec: "pipelineLoop E mx ?ctx (i + 1) (allArtifacts @ map Some xs1) calls1 = (res, calls')"
    by (simp add: addArtifacts_Some)
  have "0 \<le> i + 1" using i by simp
  from Suc.hyps(1)[OF n rec this] obtain new2 r xs2 where r: "res = Inr r"
    and n2: "calls' = calls1 @ new2" "length new2 = 2 * nat mx * length (outputsFrom (i + 1))"
      "generateCalls new2 = nat mx * length (outputsFrom (i + 1))"
      "reviewCalls new2 = nat mx * length (outputsFrom (i + 1))"
    and ok2: "pipelineSuccess r"
    and a2: "pipelineArtifacts r = (allArtifacts @ map Some xs1) @ map Some xs2"
      "map irType xs2 = outputsFrom (i + 1)"
    and h2: "\<forall>j < length (outputsFrom (i + 1)).
        holdsGeneration E calls1 new2 (lastGeneration mx j) (xs2 ! j)"
    by blast
  from a1(2) have l1: "length xs1 = length ?ts" by (metis length_map)
  have hold: "holdsGeneration E calls (new1 @ new2) (lastGeneration mx j) ((xs1 @ xs2) ! j)"
    if j: "j < length (outputsFrom i)" for j
  proof (cases "j < length ?ts")
    case True
    from lastGeneration_less[OF assms(1) True] n1(2)
    have "lastGeneration mx j < length new1" by simp
    from holdsGeneration_left[OF this] h1 True l1 show ?thesis by (simp add: nth_append)
  next
    case False
    define j' where "j' = j - length ?ts"
    with False have jj: "j = length ?ts + j'" by simp
    with j out have "j' < length (outputsFrom (i + 1))" by simp
    with h2 have "holdsGeneration E (calls @ new1) new2 (lastGeneration mx j') (xs2 ! j')"
      unfolding n1(1) by blast
    then have "holdsGeneration E calls (new1 @ new2) (length new1 + lastGeneration mx j') (xs2 ! j')"
      by (simp only: holdsGeneration_right)
    moreover have "lastGeneration mx j = length new1 + lastGeneration mx j'"
      unfolding jj using lastGeneration_shift[OF assms(1), of "length ?ts" j'] n1(2) by simp
    moreover have "(xs1 @ xs2) ! j = xs2 ! j'" unfolding jj using l1 by (simp add: nth_append)
    ultimately show ?thesis by simp
  qed
  have "calls' = calls @ (new1 @ new2)" using n1(1) n2(1) by simp
  moreover have "length (new1 @ new2) = 2 * nat mx * length (outputsFrom i)"
    using n1(2) n2(2) out by (simp add: algebra_simps)
  moreover have "generateCalls (new1 @ new2) = nat mx * length (outputsFrom i)"
    "reviewCalls (new1 @ new2) = nat mx * length (outputsFrom i)"
    using n1(3,4) n2(3,4) out
    by (simp_all add: generateCalls_append reviewCalls_append algebra_simps)
  moreover have "pipelineArtifacts r = allArtifacts @ map Some (xs1 @ xs2)"
    "map irType (xs1 @ xs2) = outputsFrom i"
    using a2 a1(2) out by simp_all
  ultimately show ?case using r ok2 hold
    by (intro exI[of _ "new1 @ new2"] exI[of _ r] exI[of _ "xs1 @ xs2"]) blast
qed

lemma map_of_mapSet: "map_of (mapSet k v m) k = Some v"
  by (induction m) auto

lemma executeLoop_prefix:
  "executeLoop E ag mx ctx ts arts calls = ((res, ctx'), calls') \<Longrightarrow>
     \<exists>more. artifacts res = arts @ more"
proof (induction ts arbitrary: ctx arts calls)
  case Nil
  then show ?case by auto
next
  case (Cons t ts)
  obtain r1 calls1 where g: "generateWithFeedbackCycle E ag mx ctx t calls = (r1, calls1)"
    by (cases "generateWithFeedbackCycle E ag mx ctx t calls")
  show ?case
  proof (cases r1)
    case (Inl e)
    with g Cons.prems show ?thesis by auto
  next
    case (Inr r)
    let ?ctx = "ctx\<lparr>previousArtifacts := mapSet t (artifact r) (previousArtifacts ctx)\<rparr>"
    from g Inr Cons.prems have
      "executeLoop E ag mx ?ctx ts (arts @ [artifact r]) calls1 = ((res, ctx'), calls')"
      by simp
    from Cons.IH[OF this] obtain more where "artifacts res = (arts @ [artifact r]) @ more"
      by blast
    then show ?thesis by simp
  qed
qed

text \<open>
  C4. With a budget \<open>maxCycles \<ge> 1\<close>: a feedback cycle that returns without approval has
  used exactly \<open>maxCycles\<close> generate/review pairs and returns, not an error, the result
  with \<open>approved = false\<close>, \<open>cyclesUsed = maxCycles\<close> and the normalized last generation
  as artifact; it does return so whenever no call throws and no review answer is an
  approval. The stage goes on with that artifact: it is set in the context under its type
  and pushed on the result of the stage, a stage with this single output type succeeds, and
  in a stage with further types the call right after the exhausted cycle is the first
  generate call for the next type, built from the context that holds the artifact. The
  pipeline goes on too: when no call throws and no review approves, a run from stage index
  \<open>n \<ge> 0\<close> succeeds with \<open>maxCycles\<close> generate calls and as many review calls for every
  output type of every stage from \<open>n\<close> on, and its result holds, after the seeded
  artifacts and in pipeline order, one artifact per type, each with the normalized answer
  to the last generate call for its type. And a run whose calls never throw succeeds
  whatever the reviews say.
\<close>

theorem budget_exhausted_is_not_fatal:
  "(1 \<le> mx \<and> generateWithFeedbackCycle E ag mx ctx t calls = (Inr r, calls') \<and> \<not> cycleApproved r
      \<longrightarrow> cyclesUsed r = mx
        \<and> generateCalls (drop (length calls) calls') = nat mx
        \<and> reviewCalls (drop (length calls) calls') = nat mx
        \<and> (\<exists>raw. response E calls (drop (length calls) calls') (2 * nat mx - 2) = Inr raw
              \<and> map_option content (artifact r) = Some (cleanSpecContent raw)))
   \<and> (1 \<le> mx \<and> (\<forall>n q. \<exists>s. llm E n q = Inr s
                      \<and> (\<not> isExecutor q \<longrightarrow> \<not> approved (parseReviewResult s)))
      \<longrightarrow> (\<exists>r. fst (generateWithFeedbackCycle E ag mx ctx t calls) = Inr r \<and> \<not> cycleApproved r))
   \<and> (1 \<le> mx \<and> generateWithFeedbackCycle E ag mx ctx t calls = (Inr r, calls') \<and> \<not> cycleApproved r
      \<longrightarrow> map_of (mapSet t (artifact r) (previousArtifacts ctx)) t = Some (artifact r)
        \<and> executeLoop E ag mx ctx [t] arts calls
            = ((\<lparr>artifacts = arts @ [artifact r], success = True, error = None\<rparr>,
                ctx\<lparr>previousArtifacts := mapSet t (artifact r) (previousArtifacts ctx)\<rparr>), calls')
        \<and> (\<exists>rest more.
              snd (executeLoop E ag mx ctx (t # t' # ts) arts calls)
                = calls' @ ExecutorRequest ag
                     (ctx\<lparr>previousArtifacts := mapSet t (artifact r) (previousArtifacts ctx)\<rparr>)
                     t' [] # rest
              \<and> artifacts (fst (fst (executeLoop E ag mx ctx (t # t' # ts) arts calls)))
                = arts @ artifact r # more))
   \<and> (1 \<le> mx \<and> 0 \<le> n \<and> (\<forall>n q. \<exists>s. llm E n q = Inr s
                      \<and> (\<not> isExecutor q \<longrightarrow> \<not> approved (parseReviewResult s)))
      \<longrightarrow> (\<exists>r new xs. Pipeline_execute E mx up mn sid n existing calls = (Inr r, calls @ new)
            \<and> pipelineSuccess r
            \<and> pipelineArtifacts r =
                (case existing of None \<Rightarrow> [] | Some m \<Rightarrow> map (Some \<circ> snd) m) @ map Some xs
            \<and> map irType xs = outputsFrom n
            \<and> generateCalls new = nat mx * length (outputsFrom n)
            \<and> reviewCalls new = nat mx * length (outputsFrom n)
            \<and> (\<forall>j < length (outputsFrom n).
                  holdsGeneration E calls new (lastGeneration mx j) (xs ! j))))
   \<and> (1 \<le> mx \<and> 0 \<le> n \<and> (\<forall>n q. \<exists>s. llm E n q = Inr s)
      \<longrightarrow> (\<exists>r. fst (Pipeline_execute E mx up mn sid n existing calls) = Inr r
            \<and> pipelineSuccess r
            \<and> map (map_option irType) (pipelineArtifacts r) =
                (case existing of None \<Rightarrow> [] | Some m \<Rightarrow> map (Some \<circ> irType \<circ> snd) m)
                @ map Some (outputsFrom n)))"
proof -
 have c1: "cyclesUsed r = mx
        \<and> generateCalls (drop (length calls) calls') = nat mx
        \<and> reviewCalls (drop (length calls) calls') = nat mx
        \<and> (\<exists>raw. response E calls (drop (length calls) calls') (2 * nat mx - 2) = Inr raw
              \<and> map_option content (artifact r) = Some (cleanSpecContent raw))"
  if a: "1 \<le> mx \<and> generateWithFeedbackCycle E ag mx ctx t calls = (Inr r, calls')
      \<and> \<not> cycleApproved r"
 proof -
  let ?new = "drop (length calls) calls'"
  from a generateWithFeedbackCycle_inv[of E ag mx ctx t calls "Inr r" calls']
  have inv: "cycleInv E ag mx t 1 None calls (Inr r) ?new" by blast
  then have eqs: "reviewCalls ?new = generateCalls ?new" "length ?new = 2 * generateCalls ?new"
    and cnt: "if cycleApproved r then 1 \<le> cyclesUsed r \<and> cyclesUsed r \<le> mx
                 \<and> generateCalls ?new = nat (cyclesUsed r + 1 - 1)
               else cyclesUsed r = mx \<and> generateCalls ?new = nat (mx + 1 - 1)"
    and art: "if ?new = [] then artifact r = None \<and> \<not> cycleApproved r
      else (\<exists>raw. response E calls ?new (length ?new - 2) = Inr raw
                      \<and> artifact r = Some (mkArtifact ag t (cleanSpecContent raw)
                            (clock E (length calls + length ?new - 1))))
                  \<and> (\<exists>rt. response E calls ?new (length ?new - 1) = Inr rt
                      \<and> approved (parseReviewResult rt) = cycleApproved r)"
    unfolding cycleInv_def by blast+
  from cnt a have k: "cyclesUsed r = mx" "generateCalls ?new = nat mx" by simp_all
  with eqs have len: "length ?new = 2 * nat mx" by simp
  with a have "?new \<noteq> []" by auto
  with art obtain raw where "response E calls ?new (length ?new - 2) = Inr raw"
    "artifact r = Some (mkArtifact ag t (cleanSpecContent raw)
                            (clock E (length calls + length ?new - 1)))"
    by auto
  then have "response E calls ?new (2 * nat mx - 2) = Inr raw
      \<and> map_option content (artifact r) = Some (cleanSpecContent raw)"
    unfolding len by (simp add: mkArtifact_def)
  then have "\<exists>raw. response E calls ?new (2 * nat mx - 2) = Inr raw
      \<and> map_option content (artifact r) = Some (cleanSpecContent raw)" by (rule exI)
  with k eqs show "cyclesUsed r = mx
        \<and> generateCalls ?new = nat mx
        \<and> reviewCalls ?new = nat mx
        \<and> (\<exists>raw. response E calls ?new (2 * nat mx - 2) = Inr raw
              \<and> map_option content (artifact r) = Some (cleanSpecContent raw))"
    by simp
 qed
 have c2: "\<exists>r. fst (generateWithFeedbackCycle E ag mx ctx t calls) = Inr r \<and> \<not> cycleApproved r"
  if a: "1 \<le> mx \<and> (\<forall>n q. \<exists>s. llm E n q = Inr s
                      \<and> (\<not> isExecutor q \<longrightarrow> \<not> approved (parseReviewResult s)))"
 proof -
  obtain res calls' where run: "generateWithFeedbackCycle E ag mx ctx t calls = (res, calls')"
    by (cases "generateWithFeedbackCycle E ag mx ctx t calls")
  let ?new = "drop (length calls) calls'"
  from a have nothrow: "\<forall>n q. \<exists>s. llm E n q = Inr s" by blast
  from cycle_no_throw[OF nothrow run] obtain r where r: "res = Inr r" by blast
  from generateWithFeedbackCycle_inv[OF run] r
  have inv: "cycleInv E ag mx t 1 None calls (Inr r) ?new" by blast
  then have eqs: "length ?new = 2 * generateCalls ?new"
    and alt: "\<forall>i < length ?new. isExecutor (?new ! i) = even i"
    and art: "if ?new = [] then artifact r = None \<and> \<not> cycleApproved r
      else (\<exists>raw. response E calls ?new (length ?new - 2) = Inr raw
                      \<and> artifact r = Some (mkArtifact ag t (cleanSpecContent raw)
                            (clock E (length calls + length ?new - 1))))
                  \<and> (\<exists>rt. response E calls ?new (length ?new - 1) = Inr rt
                      \<and> approved (parseReviewResult rt) = cycleApproved r)"
    unfolding cycleInv_def by blast+
  have "\<not> cycleApproved r"
  proof (cases "?new = []")
    case True
    with art show ?thesis by simp
  next
    case False
    with eqs have odd: "odd (length ?new - 1)" "length ?new - 1 < length ?new"
      by (cases "generateCalls ?new"; simp)+
    with alt have rv: "\<not> isExecutor (?new ! (length ?new - 1))" by blast
    from False art obtain rt where rt: "response E calls ?new (length ?new - 1) = Inr rt"
      "approved (parseReviewResult rt) = cycleApproved r" by auto
    from a rv rt(1) have "\<not> approved (parseReviewResult rt)"
      unfolding response_def by (metis sum.inject(2))
    with rt(2) show ?thesis by simp
  qed
  with run r show "\<exists>r. fst (generateWithFeedbackCycle E ag mx ctx t calls) = Inr r \<and> \<not> cycleApproved r"
    by simp
 qed
 have c5: "\<exists>r. fst (Pipeline_execute E mx up mn sid n existing calls) = Inr r
            \<and> pipelineSuccess r
            \<and> map (map_option irType) (pipelineArtifacts r) =
                (case existing of None \<Rightarrow> [] | Some m \<Rightarrow> map (Some \<circ> irType \<circ> snd) m)
                @ map Some (outputsFrom n)"
  if a: "1 \<le> mx \<and> 0 \<le> n \<and> (\<forall>n q. \<exists>s. llm E n q = Inr s)"
 proof -
  obtain res calls' where run: "Pipeline_execute E mx up mn sid n existing calls = (res, calls')"
    by (cases "Pipeline_execute E mx up mn sid n existing calls")
  from a have n: "0 \<le> n" by blast
  from Pipeline_execute_inv[OF run n] a obtain r xs where r: "res = Inr r"
    and arts: "pipelineArtifacts r =
        (case existing of None \<Rightarrow> [] | Some m \<Rightarrow> map (Some \<circ> snd) m) @ map Some xs"
    and ok: "pipelineSuccess r" and full: "pipelineSuccess r \<longrightarrow> map irType xs = outputsFrom n"
    by blast
  from arts ok full have "map (map_option irType) (pipelineArtifacts r) =
                (case existing of None \<Rightarrow> [] | Some m \<Rightarrow> map (Some \<circ> irType \<circ> snd) m)
                @ map Some (outputsFrom n)"
  proof -
    have h: "map (map_option irType) (map Some ys) = map Some (map irType ys)"
      for ys :: "SpecArtifact list"
      by (simp add: comp_def)
    have g: "map (Some \<circ> snd) m = map Some (map snd m)"
      "map (Some \<circ> irType \<circ> snd) m = map Some (map irType (map snd m))"
      for m :: "(IRType \<times> SpecArtifact) list"
      by (simp_all add: comp_def)
    from full ok have x: "map irType xs = outputsFrom n" by simp
    show ?thesis
      unfolding arts map_append g by (cases existing) (simp_all only: h x g option.case map_append list.map)
  qed
  with run r ok show "\<exists>r. fst (Pipeline_execute E mx up mn sid n existing calls) = Inr r
            \<and> pipelineSuccess r
            \<and> map (map_option irType) (pipelineArtifacts r) =
                (case existing of None \<Rightarrow> [] | Some m \<Rightarrow> map (Some \<circ> irType \<circ> snd) m)
                @ map Some (outputsFrom n)"
    by simp
 qed
 have c3: "map_of (mapSet t (artifact r) (previousArtifacts ctx)) t = Some (artifact r)
        \<and> executeLoop E ag mx ctx [t] arts calls
            = ((\<lparr>artifacts = arts @ [artifact r], success = True, error = None\<rparr>,
                ctx\<lparr>previousArtifacts := mapSet t (artifact r) (previousArtifacts ctx)\<rparr>), calls')
        \<and> (\<exists>rest more.
              snd (executeLoop E ag mx ctx (t # t' # ts) arts calls)
                = calls' @ ExecutorRequest ag
                     (ctx\<lparr>previousArtifacts := mapSet t (artifact r) (previousArtifacts ctx)\<rparr>)
                     t' [] # rest
              \<and> artifacts (fst (fst (executeLoop E ag mx ctx (t # t' # ts) arts calls)))
                = arts @ artifact r # more)"
  if a: "1 \<le> mx \<and> generateWithFeedbackCycle E ag mx ctx t calls = (Inr r, calls')
      \<and> \<not> cycleApproved r"
 proof -
  let ?ctx = "ctx\<lparr>previousArtifacts := mapSet t (artifact r) (previousArtifacts ctx)\<rparr>"
  from a have g: "generateWithFeedbackCycle E ag mx ctx t calls = (Inr r, calls')"
    and mx: "1 \<le> mx" by blast+
  have one: "executeLoop E ag mx ctx [t] arts calls
            = ((\<lparr>artifacts = arts @ [artifact r], success = True, error = None\<rparr>, ?ctx), calls')"
    using g by simp
  obtain res2 ctx2 calls2 where
    rest: "executeLoop E ag mx ?ctx (t' # ts) (arts @ [artifact r]) calls' = ((res2, ctx2), calls2)"
    by (metis prod.collapse)
  with g have whole: "executeLoop E ag mx ctx (t # t' # ts) arts calls = ((res2, ctx2), calls2)"
    by simp
  from executeLoop_inv[OF rest] mx obtain tl where
    "calls2 = calls' @ ExecutorRequest ag ?ctx (hd (t' # ts)) [] # tl" by auto
  moreover from executeLoop_prefix[OF rest] obtain more where
    "artifacts res2 = (arts @ [artifact r]) @ more" by blast
  ultimately have "snd (executeLoop E ag mx ctx (t # t' # ts) arts calls)
                = calls' @ ExecutorRequest ag ?ctx t' [] # tl
              \<and> artifacts (fst (fst (executeLoop E ag mx ctx (t # t' # ts) arts calls)))
                = arts @ artifact r # more"
    unfolding whole by simp
  then have "\<exists>rest more. snd (executeLoop E ag mx ctx (t # t' # ts) arts calls)
                = calls' @ ExecutorRequest ag ?ctx t' [] # rest
              \<and> artifacts (fst (fst (executeLoop E ag mx ctx (t # t' # ts) arts calls)))
                = arts @ artifact r # more"
    by blast
  with one map_of_mapSet[of t "artifact r" "previousArtifacts ctx"] show ?thesis by blast
 qed
 have c4: "\<exists>r new xs. Pipeline_execute E mx up mn sid n existing calls = (Inr r, calls @ new)
            \<and> pipelineSuccess r
            \<and> pipelineArtifacts r =
                (case existing of None \<Rightarrow> [] | Some m \<Rightarrow> map (Some \<circ> snd) m) @ map Some xs
            \<and> map irType xs = outputsFrom n
            \<and> generateCalls new = nat mx * length (outputsFrom n)
            \<and> reviewCalls new = nat mx * length (outputsFrom n)
            \<and> (\<forall>j < length (outputsFrom n).
                  holdsGeneration E calls new (lastGeneration mx j) (xs ! j))"
  if a: "1 \<le> mx \<and> 0 \<le> n \<and> (\<forall>n q. \<exists>s. llm E n q = Inr s
                      \<and> (\<not> isExecutor q \<longrightarrow> \<not> approved (parseReviewResult s)))"
 proof -
  obtain res calls2 where run: "Pipeline_execute E mx up mn sid n existing calls = (res, calls2)"
    by (cases "Pipeline_execute E mx up mn sid n existing calls")
  from a have mx: "1 \<le> mx" and n: "0 \<le> n"
    and na: "\<forall>n q. \<exists>s. llm E n q = Inr s \<and> (\<not> isExecutor q \<longrightarrow> \<not> approved (parseReviewResult s))"
    by blast+
  from run have "pipelineLoop E mx
      \<lparr>sessionId = sid, moduleName = mn, userPrompt = up,
        previousArtifacts = (case existing of None \<Rightarrow> []
           | Some m \<Rightarrow> newMap (map (\<lambda>(k, a). (k, Some a)) m)),
        feedbackHistory = []\<rparr> n
      (case existing of None \<Rightarrow> [] | Some m \<Rightarrow> map (Some \<circ> snd) m) calls = (res, calls2)"
    by (simp add: Pipeline_execute_def)
  from pipelineLoop_exhausted[OF mx na this n] run show ?thesis by blast
 qed
 from c1 c2 c3 c4 c5 show ?thesis by blast
qed

lemma never_approving_env:
  "(\<forall>n q. \<exists>s. llm (constantEnv ''draft'' ''NEEDS_REVISION more'') n q = Inr s
       \<and> (\<not> isExecutor q \<longrightarrow> \<not> approved (parseReviewResult s)))"
  by (simp add: constantEnv_def parseReviewResult_def trim_def isWhiteSpace_def startsWith_def)

lemma constantEnv_holds:
  "holdsGeneration (constantEnv ''draft'' v) calls new i x \<Longrightarrow> content x = ''draft''"
proof -
  assume h: "holdsGeneration (constantEnv ''draft'' v) calls new i x"
  have "cleanSpecContent ''draft'' = ''draft''" by code_simp
  with h show ?thesis
    by (auto simp add: holdsGeneration_def response_def constantEnv_def)
qed

theorem budget_exhausted_is_not_fatal_witness:
  "(\<exists>r calls'. (1::int) \<le> 3
      \<and> generateWithFeedbackCycle (scriptedEnv scriptRejected) Product 3 emptyContext Contract []
          = (Inr r, calls')
      \<and> \<not> cycleApproved r \<and> cyclesUsed r = 3 \<and> generateCalls calls' = 3 \<and> reviewCalls calls' = 3
      \<and> map_option content (artifact r) = Some ''draft 3''
      \<and> executeLoop (scriptedEnv scriptRejected) Product 3 emptyContext [Contract] [] []
          = ((\<lparr>artifacts = [artifact r], success = True, error = None\<rparr>,
              emptyContext\<lparr>previousArtifacts := [(Contract, artifact r)]\<rparr>), calls'))
   \<and> (\<forall>n q. \<exists>s. llm (constantEnv ''draft'' ''NEEDS_REVISION more'') n q = Inr s
          \<and> (\<not> isExecutor q \<longrightarrow> \<not> approved (parseReviewResult s)))
   \<and> (\<exists>r. fst (generateWithFeedbackCycle (constantEnv ''draft'' ''NEEDS_REVISION more'') Tester 2
               emptyContext Tests []) = Inr r \<and> \<not> cycleApproved r)
   \<and> (\<exists>r new xs. Pipeline_execute (constantEnv ''draft'' ''NEEDS_REVISION more'') 2 ''p'' ''m'' ''s'' 4
               None [] = (Inr r, new)
          \<and> pipelineSuccess r \<and> pipelineArtifacts r = map Some xs
          \<and> map irType xs = [Tests, Pipeline] \<and> map content xs = [''draft'', ''draft'']
          \<and> generateCalls new = 4 \<and> reviewCalls new = 4)"
proof -
  let ?E = "constantEnv ''draft'' ''NEEDS_REVISION more''"
  let ?S = "scriptedEnv scriptRejected"
  let ?run = "generateWithFeedbackCycle ?S Product 3 emptyContext Contract []"
  let ?r = "\<lparr>artifact = Some (mkArtifact Product Contract ''draft 3'' 5), cyclesUsed = 3,
          cycleApproved = False,
          cycleFeedbackHistory =
            [\<lparr>cycle = 1, artifactType = Contract, reviewerFeedback = ''a'',
              executorResponse = ''draft 1'', timestamp = 2\<rparr>,
             \<lparr>cycle = 2, artifactType = Contract, reviewerFeedback = ''b'',
              executorResponse = ''draft 2'', timestamp = 4\<rparr>,
             \<lparr>cycle = 3, artifactType = Contract, reviewerFeedback = ''c'',
              executorResponse = ''draft 3'', timestamp = 6\<rparr>]\<rparr>"
  note main = budget_exhausted_is_not_fatal
  have run: "?run = (Inr ?r, snd ?run)"
    using cycle_scriptRejected by (metis prod.collapse)
  have one: "(1::int) \<le> 3" and na: "\<not> cycleApproved ?r" by simp_all
  from main[of 3 ?S Product emptyContext Contract "[]" ?r "snd ?run"] run
  have "cyclesUsed ?r = 3 \<and> generateCalls (snd ?run) = 3 \<and> reviewCalls (snd ?run) = 3"
    by simp
  moreover have "map_option content (artifact ?r) = Some ''draft 3''"
    by (simp add: mkArtifact_def)
  moreover from main[of 3 ?S Product emptyContext Contract "[]" ?r "snd ?run" "[]"] run one na
  have "executeLoop ?S Product 3 emptyContext [Contract] [] []
          = ((\<lparr>artifacts = [] @ [artifact ?r], success = True, error = None\<rparr>,
              emptyContext\<lparr>previousArtifacts :=
                 mapSet Contract (artifact ?r) (previousArtifacts emptyContext)\<rparr>), snd ?run)"
    by blast
  then have "executeLoop ?S Product 3 emptyContext [Contract] [] []
          = ((\<lparr>artifacts = [artifact ?r], success = True, error = None\<rparr>,
              emptyContext\<lparr>previousArtifacts := [(Contract, artifact ?r)]\<rparr>), snd ?run)"
    by (simp add: emptyContext_def)
  ultimately have first: "\<exists>r calls'. (1::int) \<le> 3 \<and> ?run = (Inr r, calls')
      \<and> \<not> cycleApproved r \<and> cyclesUsed r = 3 \<and> generateCalls calls' = 3 \<and> reviewCalls calls' = 3
      \<and> map_option content (artifact r) = Some ''draft 3''
      \<and> executeLoop ?S Product 3 emptyContext [Contract] [] []
          = ((\<lparr>artifacts = [artifact r], success = True, error = None\<rparr>,
              emptyContext\<lparr>previousArtifacts := [(Contract, artifact r)]\<rparr>), calls')"
    using run by (intro exI[of _ ?r] exI[of _ "snd ?run"]) simp
  have out: "outputsFrom 4 = [Tests, Pipeline]"
    by (simp add: outputsFrom_def AGENT_ORDER_def)
  from main[of 2 ?E Tester emptyContext Tests "[]"] never_approving_env
  have second: "\<exists>r. fst (generateWithFeedbackCycle ?E Tester 2 emptyContext Tests []) = Inr r
            \<and> \<not> cycleApproved r"
    by simp
  note pipe = main[where mx = 2 and E = ?E and n = 4 and up = "''p''" and mn = "''m''"
      and sid = "''s''" and existing = None and calls = "[]",
      THEN conjunct2, THEN conjunct2, THEN conjunct2, THEN conjunct1]
  have pre: "(1::int) \<le> 2 \<and> (0::int) \<le> 4 \<and> (\<forall>n q. \<exists>s. llm ?E n q = Inr s
                      \<and> (\<not> isExecutor q \<longrightarrow> \<not> approved (parseReviewResult s)))"
    by (intro conjI never_approving_env) simp_all
  from pipe[THEN mp, OF pre]
  obtain r new xs where p: "Pipeline_execute ?E 2 ''p'' ''m'' ''s'' 4 None [] = (Inr r, [] @ new)"
    "pipelineSuccess r" "pipelineArtifacts r = (case (None :: (IRType \<times> SpecArtifact) list option) of None \<Rightarrow> []
        | Some m \<Rightarrow> map (Some \<circ> snd) m) @ map Some xs"
    "map irType xs = outputsFrom 4"
    "generateCalls new = nat 2 * length (outputsFrom 4)"
    "reviewCalls new = nat 2 * length (outputsFrom 4)"
    and h: "\<forall>j < length (outputsFrom 4). holdsGeneration ?E [] new (lastGeneration 2 j) (xs ! j)"
    by blast
  from p(4) out have len: "length xs = 2" by (metis length_map length_Cons list.size(3) numeral_2_eq_2)
  from h out have h0: "holdsGeneration ?E [] new (lastGeneration 2 0) (xs ! 0)"
    and h1: "holdsGeneration ?E [] new (lastGeneration 2 1) (xs ! 1)" by simp_all
  have c: "content (xs ! 0) = ''draft''" "content (xs ! 1) = ''draft''"
    by (rule constantEnv_holds[OF h0], rule constantEnv_holds[OF h1])
  from len obtain x0 x1 where xs: "xs = [x0, x1]"
    by (cases xs; cases "tl xs"; cases "tl (tl xs)") auto
  with c have "map content xs = [''draft'', ''draft'']" by simp
  with p out have third: "\<exists>r new xs. Pipeline_execute ?E 2 ''p'' ''m'' ''s'' 4 None [] = (Inr r, new)
          \<and> pipelineSuccess r \<and> pipelineArtifacts r = map Some xs
          \<and> map irType xs = [Tests, Pipeline] \<and> map content xs = [''draft'', ''draft'']
          \<and> generateCalls new = 4 \<and> reviewCalls new = 4"
    by (intro exI[of _ r] exI[of _ new] exI[of _ xs]) simp
  from first never_approving_env second third show ?thesis by blast
qed

section \<open>Review classification: the claims\<close>

lemma replaceFirst_startsWith:
  "startsWith s pat \<Longrightarrow> replaceFirst pat rep s = rep @ drop (length pat) s"
  by (cases s) (auto simp: startsWith_def)

lemma needs_revision_not_approved:
  "startsWith s ''NEEDS_REVISION'' \<Longrightarrow> \<not> startsWith s ''APPROVED''"
  by (cases s) (auto simp: startsWith_def)

text \<open>
  C2, as stated, fails where the text left for the feedback is empty: the classifier then
  substitutes a fixed sentence. The response \<open>NEEDS_REVISION\<close> alone has nothing after the
  marker, and the feedback returned is not empty.
\<close>

theorem review_feedback_is_not_trailing_text_counterexample:
  "startsWith (trim ''NEEDS_REVISION'') ''NEEDS_REVISION''
   \<and> drop (length ''NEEDS_REVISION'') (trim ''NEEDS_REVISION'') = ''''
   \<and> feedback (parseReviewResult ''NEEDS_REVISION'') \<noteq> ''''"
  by (simp add: parseReviewResult_def trim_def isWhiteSpace_def startsWith_def orElse_def
      noSpecificFeedback_def)

text \<open>
  C2, amended. The classifier approves exactly the responses whose trimmed form starts with
  \<open>APPROVED\<close>, whatever follows. If the trimmed form starts with \<open>NEEDS_REVISION\<close> the
  result is not approved and the feedback is the trimmed text after the marker, or a fixed
  sentence when that text is empty. For any other response the result is not approved and
  the feedback is the trimmed response, or a fixed sentence when it is empty. The feedback
  of a result that is not approved is never empty.
\<close>

theorem review_classification:
  "(approved (parseReviewResult r) \<longleftrightarrow> startsWith (trim r) ''APPROVED'')
   \<and> (startsWith (trim r) ''APPROVED'' \<longrightarrow> feedback (parseReviewResult r) = '''')
   \<and> (startsWith (trim r) ''NEEDS_REVISION'' \<longrightarrow>
         \<not> approved (parseReviewResult r)
         \<and> feedback (parseReviewResult r) =
             (if trim (drop (length ''NEEDS_REVISION'') (trim r)) = '''' then noSpecificFeedback
              else trim (drop (length ''NEEDS_REVISION'') (trim r))))
   \<and> (\<not> startsWith (trim r) ''APPROVED'' \<and> \<not> startsWith (trim r) ''NEEDS_REVISION'' \<longrightarrow>
         feedback (parseReviewResult r) = (if trim r = '''' then unableToParse else trim r))
   \<and> (\<not> approved (parseReviewResult r) \<longrightarrow> feedback (parseReviewResult r) \<noteq> '''')"
proof -
  let ?t = "trim r"
  have rep: "replaceFirst ''NEEDS_REVISION'' '''' ?t = drop (length ''NEEDS_REVISION'') ?t"
    if "startsWith ?t ''NEEDS_REVISION''"
    using replaceFirst_startsWith[OF that, of "''''"] by simp
  consider (a) "startsWith ?t ''APPROVED''"
    | (n) "\<not> startsWith ?t ''APPROVED''" "startsWith ?t ''NEEDS_REVISION''"
    | (o) "\<not> startsWith ?t ''APPROVED''" "\<not> startsWith ?t ''NEEDS_REVISION''"
    by blast
  then show ?thesis
  proof cases
    case a
    with needs_revision_not_approved[of ?t] show ?thesis
      by (auto simp: parseReviewResult_def Let_def)
  next
    case n
    have "parseReviewResult r = \<lparr>approved = False,
        feedback = orElse (trim (drop (length ''NEEDS_REVISION'') ?t)) noSpecificFeedback\<rparr>"
      using n rep[OF n(2)] by (simp only: parseReviewResult_def Let_def if_True if_False)
    with n show ?thesis
      by (simp add: orElse_def noSpecificFeedback_def)
  next
    case o
    then have "parseReviewResult r = \<lparr>approved = False, feedback = orElse ?t unableToParse\<rparr>"
      by (simp only: parseReviewResult_def Let_def if_False)
    with o show ?thesis
      by (simp add: orElse_def unableToParse_def)
  qed
qed

theorem review_classification_witness:
  "startsWith (trim '' APPROVED, with remarks '') ''APPROVED''
   \<and> approved (parseReviewResult '' APPROVED, with remarks '')
   \<and> startsWith (trim ''NEEDS_REVISION  add the error cases '') ''NEEDS_REVISION''
   \<and> parseReviewResult ''NEEDS_REVISION  add the error cases ''
        = \<lparr>approved = False, feedback = ''add the error cases''\<rparr>
   \<and> \<not> startsWith (trim ''Looks fine to me'') ''APPROVED''
   \<and> \<not> startsWith (trim ''Looks fine to me'') ''NEEDS_REVISION''
   \<and> parseReviewResult ''Looks fine to me'' = \<lparr>approved = False, feedback = ''Looks fine to me''\<rparr>"
proof -
  have t: "trim '' APPROVED, with remarks '' = ''APPROVED, with remarks''"
    "trim ''NEEDS_REVISION  add the error cases '' = ''NEEDS_REVISION  add the error cases''"
    "trim ''Looks fine to me'' = ''Looks fine to me''"
    "trim ''  add the error cases'' = ''add the error cases''"
    by (simp_all add: trim_def isWhiteSpace_def)
  have s: "startsWith ''APPROVED, with remarks'' ''APPROVED''"
    "startsWith ''NEEDS_REVISION  add the error cases'' ''NEEDS_REVISION''"
    "\<not> startsWith ''Looks fine to me'' ''APPROVED''"
    "\<not> startsWith ''Looks fine to me'' ''NEEDS_REVISION''"
    by (simp_all add: startsWith_def)
  from review_classification[of "'' APPROVED, with remarks ''"] t s
  have a: "approved (parseReviewResult '' APPROVED, with remarks '')" by simp
  from review_classification[of "''NEEDS_REVISION  add the error cases ''"] t s
  have n: "\<not> approved (parseReviewResult ''NEEDS_REVISION  add the error cases '')"
    "feedback (parseReviewResult ''NEEDS_REVISION  add the error cases '') = ''add the error cases''"
    by auto
  from review_classification[of "''Looks fine to me''"] t s
  have o: "\<not> approved (parseReviewResult ''Looks fine to me'')"
    "feedback (parseReviewResult ''Looks fine to me'') = ''Looks fine to me''"
    by auto
  have eq: "x = \<lparr>approved = approved x, feedback = feedback x\<rparr>" for x :: review_result
    by simp
  from a n o t s show ?thesis
    using eq[of "parseReviewResult ''NEEDS_REVISION  add the error cases ''"]
      eq[of "parseReviewResult ''Looks fine to me''"]
    by simp
qed

section \<open>Backoff: the claim\<close>

lemma overflowBound_numeral [code]:
  "overflowBound = 179769313486231590772930519078902473361797697894230657273430081157732675805500963132708477322407536021120113879871393357658789768814416622492847430639474124377767893424865485276302219601246094119453082952085005768838150682342462881473913110540827237163350510684586298239947245938479716304835356329624224137216"
  by (simp add: overflowBound_def)













section \<open>The provider calls: attempts and errors\<close>

declare callLoop.simps [simp del]

lemma fetches_append [simp]: "fetches (xs @ ys) = fetches xs + fetches ys"
  by (simp add: fetches_def)

lemma waits_append [simp]: "waits (xs @ ys) = waits xs + waits ys"
  by (simp add: waits_def)

lemma fetches_simps [simp]:
  "fetches [] = 0" "fetches (Fetch k # xs) = Suc (fetches xs)"
  "fetches (Sleep d # xs) = fetches xs" "fetches (OnRateLimitWait d k # xs) = fetches xs"
  by (simp_all add: fetches_def)

lemma waits_simps [simp]:
  "waits [] = 0" "waits (Fetch k # xs) = waits xs"
  "waits (Sleep d # xs) = Suc (waits xs)" "waits (OnRateLimitWait d k # xs) = waits xs"
  by (simp_all add: waits_def)

lemma callLoop_network_error:
  "a \<le> maxRetries \<Longrightarrow> fetchAt N a = NetworkError m \<Longrightarrow>
     callLoop N p model a ev = (Inl (FetchFailed m), ev @ [Fetch a])"
  by (simp add: callLoop.simps[of N p model a ev])

lemma callLoop_auth:
  "a \<le> maxRetries \<Longrightarrow> fetchAt N a = Response r \<Longrightarrow> status r = 401 \<or> status r = 403 \<Longrightarrow>
     callLoop N p model a ev =
       (Inl (if errorBody r = JsonNull then NullErrorBody
             else ApiError p (status r) (errorMessageOf r)), ev @ [Fetch a])"
  by (auto simp add: callLoop.simps[of N p model a ev] isRateLimitError_def ok_def Let_def)

lemma callLoop_retry:
  assumes "a < maxRetries" "fetchAt N a = Response r" "retryable r"
  shows "\<exists>ws. fetches ws = 0 \<and> waits ws = 1
     \<and> callLoop N p model a ev = callLoop N p model (a + 1) (ev @ Fetch a # ws)"
proof (cases "isRateLimitError (status r)")
  case True
  let ?d = "calculateBackoffDelay a baseDelayMs maxDelayMs (Some (retryAfterMsOf r)) (randomAt N a)"
  from assms True have "callLoop N p model a ev
      = callLoop N p model (a + 1) (ev @ Fetch a # [OnRateLimitWait ?d a, Sleep ?d])"
    by (simp add: callLoop.simps[of N p model a ev] Let_def)
  then show ?thesis by (intro exI[of _ "[OnRateLimitWait ?d a, Sleep ?d]"]) simp
next
  case False
  let ?d = "calculateBackoffDelay a baseDelayMs maxDelayMs None (randomAt N a)"
  from assms False have s: "500 \<le> status r" "errorBody r \<noteq> JsonNull" by (simp_all add: retryable_def)
  with assms False have "callLoop N p model a ev
      = callLoop N p model (a + 1) (ev @ Fetch a # [Sleep ?d])"
    by (simp add: callLoop.simps[of N p model a ev] Let_def ok_def)
  then show ?thesis by (intro exI[of _ "[Sleep ?d]"]) simp
qed

lemma callLoop_not_retryable:
  assumes "a \<le> maxRetries" "fetchAt N a = Response r" "\<not> retryable r"
  shows "snd (callLoop N p model a ev) = ev @ [Fetch a]"
proof -
  from assms(3) have nr: "\<not> isRateLimitError (status r)"
    "\<not> 500 \<le> status r \<or> errorBody r = JsonNull"
    by (auto simp add: retryable_def)
  show ?thesis
  proof (cases "ok r")
    case True
    with assms(1,2) nr(1) show ?thesis
      by (cases "payload r") (auto simp add: callLoop.simps[of N p model a ev] Let_def)
  next
    case False
    show ?thesis
    proof (cases "errorBody r = JsonNull")
      case True
      with assms(1,2) nr(1) False show ?thesis
        by (simp add: callLoop.simps[of N p model a ev] Let_def)
    next
      case nn: False
      with nr(2) have "\<not> 500 \<le> status r" by simp
      with assms(1,2) nr(1) False nn show ?thesis
        by (simp add: callLoop.simps[of N p model a ev] Let_def)
    qed
  qed
qed

lemma callLoop_final:
  assumes "fetchAt M maxRetries = Response r"
  shows "callLoop M p model maxRetries es =
      ((if isRateLimitError (status r) then Inl (RateLimitExceeded p maxRetries)
        else if \<not> ok r then
          (if errorBody r = JsonNull then Inl NullErrorBody
           else Inl (ApiError p (status r) (errorMessageOf r)))
        else (case payload r of None \<Rightarrow> Inl UnreadableBody
              | Some (text, tin, tout) \<Rightarrow>
                  Inr \<lparr>responseContent = text, responseModel = model, inputTokens = tin,
                        outputTokens = tout\<rparr>)), es @ [Fetch maxRetries])"
  using assms
  by (cases "payload r")
    (auto simp add: callLoop.simps[of M p model maxRetries es] Let_def)

lemma finalAttempt_eq:
  "finalAttempt p model r =
      (if isRateLimitError (status r) then Inl (RateLimitExceeded p maxRetries)
        else if \<not> ok r then
          (if errorBody r = JsonNull then Inl NullErrorBody
           else Inl (ApiError p (status r) (errorMessageOf r)))
        else (case payload r of None \<Rightarrow> Inl UnreadableBody
              | Some (text, tin, tout) \<Rightarrow>
                  Inr \<lparr>responseContent = text, responseModel = model, inputTokens = tin,
                        outputTokens = tout\<rparr>))"
proof -
  let ?N = "\<lparr>fetchAt = (\<lambda>k. Response r), randomAt = (\<lambda>k. 0)\<rparr>"
  have "fetchAt ?N maxRetries = Response r" by simp
  from callLoop_final[OF this, of p model "[]"] show ?thesis
    unfolding finalAttempt_def by simp
qed

lemma callLoop_last:
  assumes "fetchAt N maxRetries = Response r"
  shows "callLoop N p model maxRetries ev = (finalAttempt p model r, ev @ [Fetch maxRetries])"
  unfolding finalAttempt_eq by (rule callLoop_final[OF assms])

lemma finalAttempt_rate_limit:
  "isRateLimitError (status r) \<Longrightarrow> finalAttempt p model r = Inl (RateLimitExceeded p maxRetries)"
  by (simp add: finalAttempt_eq)

lemma finalAttempt_server_error:
  "\<not> isRateLimitError (status r) \<Longrightarrow> 500 \<le> status r \<Longrightarrow>
     finalAttempt p model r =
       Inl (if errorBody r = JsonNull then NullErrorBody
            else ApiError p (status r) (errorMessageOf r))"
  by (simp add: finalAttempt_eq ok_def)

text \<open>Every attempt but the last answered by a retryable response: the last attempt decides.\<close>

lemma callLoop_exhaust:
  assumes "a \<le> maxRetries"
    and "\<forall>k. a \<le> k \<and> k < maxRetries \<longrightarrow> (\<exists>r. fetchAt N k = Response r \<and> retryable r)"
    and "fetchAt N maxRetries = Response r5"
  shows "\<exists>new. callLoop N p model a ev = (finalAttempt p model r5, ev @ new)
     \<and> fetches new = nat (maxRetries + 1 - a) \<and> waits new = nat (maxRetries - a)"
  using assms(1,2)
proof (induction "nat (maxRetries - a)" arbitrary: a ev)
  case 0
  then have a: "a = maxRetries" by simp
  from callLoop_last[OF assms(3), of p model ev] show ?case
    unfolding a by (intro exI[of _ "[Fetch maxRetries]"]) simp
next
  case (Suc n)
  then have lt: "a < maxRetries" and n: "n = nat (maxRetries - (a + 1))" by simp_all
  from Suc.prems(2) lt obtain r where r: "fetchAt N a = Response r" "retryable r" by blast
  from callLoop_retry[OF lt r, of p model ev] obtain ws where ws: "fetches ws = 0" "waits ws = 1"
    "callLoop N p model a ev = callLoop N p model (a + 1) (ev @ Fetch a # ws)" by blast
  have "\<exists>new. callLoop N p model (a + 1) (ev @ Fetch a # ws) = (finalAttempt p model r5, (ev @ Fetch a # ws) @ new)
     \<and> fetches new = nat (maxRetries + 1 - (a + 1)) \<and> waits new = nat (maxRetries - (a + 1))"
    using Suc.prems(2) lt by (intro Suc.hyps(1)[OF n]) auto
  then obtain new where new: "callLoop N p model (a + 1) (ev @ Fetch a # ws)
        = (finalAttempt p model r5, (ev @ Fetch a # ws) @ new)"
    "fetches new = nat (maxRetries + 1 - (a + 1))" "waits new = nat (maxRetries - (a + 1))"
    by blast
  have f: "nat (maxRetries + 1 - a) = Suc (nat (maxRetries + 1 - (a + 1)))"
    and w: "nat (maxRetries - a) = Suc (nat (maxRetries - (a + 1)))"
    using lt by arith+
  from ws new show ?case
    unfolding f w by (intro exI[of _ "Fetch a # ws @ new"]) simp
qed

text \<open>Whatever the network does, a loop entered at attempt \<open>a\<close> makes at most the attempts left.\<close>

lemma callLoop_bounded:
  "callLoop N p model a ev = (res, ev') \<Longrightarrow>
     \<exists>new. ev' = ev @ new \<and> fetches new \<le> nat (maxRetries + 1 - a) \<and> waits new \<le> fetches new"
proof (induction "nat (maxRetries + 1 - a)" arbitrary: a ev)
  case 0
  then have "\<not> a \<le> maxRetries" by simp
  with "0.prems" have "ev' = ev" by (simp add: callLoop.simps[of N p model a ev])
  then show ?case by simp
next
  case (Suc n)
  then have le: "a \<le> maxRetries" and n: "n = nat (maxRetries + 1 - (a + 1))" by simp_all
  show ?case
  proof (cases "fetchAt N a")
    case (NetworkError m)
    from callLoop_network_error[OF le this, of p model ev] Suc.prems have "ev' = ev @ [Fetch a]"
      by simp
    with le show ?thesis by (intro exI[of _ "[Fetch a]"]) simp
  next
    case (Response r)
    show ?thesis
    proof (cases "a < maxRetries \<and> retryable r")
      case True
      with callLoop_retry[of a N r p model ev] Response obtain ws where
        ws: "fetches ws = 0" "waits ws = 1"
          "callLoop N p model a ev = callLoop N p model (a + 1) (ev @ Fetch a # ws)" by blast
      with Suc.prems have "callLoop N p model (a + 1) (ev @ Fetch a # ws) = (res, ev')" by simp
      from Suc.hyps(1)[OF n this] obtain new where
        "ev' = (ev @ Fetch a # ws) @ new" "fetches new \<le> nat (maxRetries + 1 - (a + 1))"
        "waits new \<le> fetches new" by blast
      with ws le show ?thesis
        by (intro exI[of _ "Fetch a # ws @ new"]) simp
    next
      case False
      have "snd (callLoop N p model a ev) = ev @ [Fetch a]"
      proof (cases "retryable r")
        case True
        with False le have "a = maxRetries" by simp
        with callLoop_last[of N r p model ev] Response show ?thesis by simp
      next
        case False
        with callLoop_not_retryable[OF le Response] show ?thesis by simp
      qed
      with Suc.prems have "ev' = ev @ [Fetch a]" by simp
      with le show ?thesis by (intro exI[of _ "[Fetch a]"]) simp
    qed
  qed
qed

lemma callProvider_bounded:
  "fetches (snd (callProvider N p model)) \<le> 5
   \<and> waits (snd (callProvider N p model)) \<le> fetches (snd (callProvider N p model))"
proof (cases "supportsModel p model")
  case True
  obtain res ev where run: "callLoop N p model 1 [] = (res, ev)"
    by (cases "callLoop N p model 1 []")
  from callLoop_bounded[OF run] have "fetches ev \<le> nat (maxRetries + 1 - 1)" "waits ev \<le> fetches ev"
    by auto
  with True run show ?thesis by (simp add: callProvider_def maxRetries_def)
next
  case False
  then show ?thesis by (simp add: callProvider_def)
qed

lemma no_fetch: "fetches ws = 0 \<Longrightarrow> Fetch k \<notin> set ws"
  by (induction ws) (auto simp add: fetches_def split: if_splits)

text \<open>A loop that issues the request of attempt \<open>k\<close> went through the loop head at \<open>k\<close>.\<close>

lemma callLoop_reaches:
  "callLoop N p model a ev = (res, ev') \<Longrightarrow> Fetch k \<in> set (drop (length ev) ev') \<Longrightarrow>
     k \<le> maxRetries \<and> (\<exists>evk. callLoop N p model k evk = (res, ev'))"
proof (induction "nat (maxRetries + 1 - a)" arbitrary: a ev)
  case 0
  then have "\<not> a \<le> maxRetries" by simp
  with "0.prems" have "ev' = ev" by (simp add: callLoop.simps[of N p model a ev])
  with "0.prems"(2) show ?case by simp
next
  case (Suc n)
  then have le: "a \<le> maxRetries" and n: "n = nat (maxRetries + 1 - (a + 1))" by simp_all
  have single: ?case if "ev' = ev @ [Fetch a]"
  proof -
    from that Suc.prems(2) have "k = a" by simp
    with le Suc.prems(1) show ?thesis by blast
  qed
  show ?case
  proof (cases "fetchAt N a")
    case (NetworkError m)
    from callLoop_network_error[OF le this, of p model ev] Suc.prems(1) have "ev' = ev @ [Fetch a]"
      by simp
    then show ?thesis by (rule single)
  next
    case (Response r)
    show ?thesis
    proof (cases "a < maxRetries \<and> retryable r")
      case True
      with callLoop_retry[of a N r p model ev] Response obtain ws where
        ws: "fetches ws = 0" "waits ws = 1"
          "callLoop N p model a ev = callLoop N p model (a + 1) (ev @ Fetch a # ws)" by blast
      with Suc.prems(1) have rec: "callLoop N p model (a + 1) (ev @ Fetch a # ws) = (res, ev')"
        by simp
      from callLoop_bounded[OF rec] obtain new where new: "ev' = (ev @ Fetch a # ws) @ new"
        by blast
      with Suc.prems(2) have "Fetch k \<in> set (Fetch a # ws @ new)" by simp
      with no_fetch[OF ws(1), of k] have "k = a \<or> Fetch k \<in> set new" by auto
      then show ?thesis
      proof
        assume "k = a"
        with le Suc.prems(1) show ?thesis by blast
      next
        assume "Fetch k \<in> set new"
        with new have "Fetch k \<in> set (drop (length (ev @ Fetch a # ws)) ev')" by simp
        from Suc.hyps(1)[OF n rec this] show ?thesis .
      qed
    next
      case False
      have "snd (callLoop N p model a ev) = ev @ [Fetch a]"
      proof (cases "retryable r")
        case True
        with False le have "a = maxRetries" by simp
        with callLoop_last[of N r p model ev] Response show ?thesis by simp
      next
        case False
        with callLoop_not_retryable[OF le Response] show ?thesis by simp
      qed
      with Suc.prems(1) have "ev' = ev @ [Fetch a]" by simp
      then show ?thesis by (rule single)
    qed
  qed
qed

text \<open>
  C7, as stated, fails for an auth-class response that does not answer the first attempt.
  After a rate-limit response, a 403 ends the call at the second attempt: two attempts
  were made and one backoff wait.
\<close>

theorem auth_failure_after_retry_counterexample:
  "fst (callAnthropic (scriptedNetwork [plainResponse 429 ''Too Many Requests'',
          plainResponse 403 ''Forbidden'']) ClaudeOpus45)
     = Inl (ApiError Anthropic 403 ''Forbidden'')
   \<and> fetches (snd (callAnthropic (scriptedNetwork [plainResponse 429 ''Too Many Requests'',
          plainResponse 403 ''Forbidden'']) ClaudeOpus45)) = 2
   \<and> waits (snd (callAnthropic (scriptedNetwork [plainResponse 429 ''Too Many Requests'',
          plainResponse 403 ''Forbidden'']) ClaudeOpus45)) = 1"
  by code_simp

text \<open>
  C7, amended. An auth-class response (status 401 or 403) is never retried: the attempt
  that received it is the last event of the call, with no notification, no wait and no
  request after it, and the call fails with the provider API error of that response (with
  the \<open>TypeError\<close> of reading the error body when that body is JSON \<open>null\<close>). When the
  auth-class response answers the first request, the call made exactly one attempt and
  no wait. This holds for \<open>callAnthropic\<close> and for \<open>callOpenAI\<close>.
\<close>

theorem auth_failure_is_never_retried:
  "(a \<le> maxRetries \<and> fetchAt N a = Response r \<and> (status r = 401 \<or> status r = 403)
      \<longrightarrow> callLoop N p model a ev
            = (Inl (if errorBody r = JsonNull then NullErrorBody
                    else ApiError p (status r) (errorMessageOf r)), ev @ [Fetch a]))
   \<and> (callProvider N p model = (res, evs) \<and> Fetch k \<in> set evs
        \<and> fetchAt N k = Response r \<and> (status r = 401 \<or> status r = 403)
      \<longrightarrow> evs \<noteq> [] \<and> last evs = Fetch k
        \<and> res = Inl (if errorBody r = JsonNull then NullErrorBody
                     else ApiError p (status r) (errorMessageOf r)))
   \<and> (supportsModel p model \<and> fetchAt N 1 = Response r \<and> (status r = 401 \<or> status r = 403)
      \<longrightarrow> callProvider N p model
            = (Inl (if errorBody r = JsonNull then NullErrorBody
                    else ApiError p (status r) (errorMessageOf r)), [Fetch 1])
        \<and> fetches (snd (callProvider N p model)) = 1 \<and> waits (snd (callProvider N p model)) = 0)
   \<and> callAnthropic N model = callProvider N Anthropic model
   \<and> callOpenAI N model = callProvider N OpenAI model"
proof -
  let ?e = "Inl (if errorBody r = JsonNull then NullErrorBody
                 else ApiError p (status r) (errorMessageOf r)) :: gateway_error + LLMResponse"
  have one: "(1::int) \<le> maxRetries" by (simp add: maxRetries_def)
  have c1: "callLoop N p model a ev = (?e, ev @ [Fetch a])"
    if "a \<le> maxRetries \<and> fetchAt N a = Response r \<and> (status r = 401 \<or> status r = 403)"
    for a ev
    using that callLoop_auth[of a N r p model ev] by blast
  have c2: "evs \<noteq> [] \<and> last evs = Fetch k \<and> res = ?e"
    if h: "callProvider N p model = (res, evs) \<and> Fetch k \<in> set evs
        \<and> fetchAt N k = Response r \<and> (status r = 401 \<or> status r = 403)"
  proof -
    from h have sup: "supportsModel p model"
      by (cases "supportsModel p model") (auto simp add: callProvider_def)
    with h have run: "callLoop N p model 1 [] = (res, evs)" by (simp add: callProvider_def)
    from h have "Fetch k \<in> set (drop (length ([] :: gateway_event list)) evs)" by simp
    from callLoop_reaches[OF run this] obtain evk where
      k: "k \<le> maxRetries" and at: "callLoop N p model k evk = (res, evs)" by blast
    from c1[of k evk] k h at have "res = ?e" "evs = evk @ [Fetch k]" by simp_all
    then show ?thesis by simp
  qed
  have c3: "callProvider N p model = (?e, [Fetch 1])
        \<and> fetches (snd (callProvider N p model)) = 1 \<and> waits (snd (callProvider N p model)) = 0"
    if h: "supportsModel p model \<and> fetchAt N 1 = Response r \<and> (status r = 401 \<or> status r = 403)"
  proof -
    from c1[of 1 "[]"] one h have "callLoop N p model 1 [] = (?e, [Fetch 1])" by simp
    with h show ?thesis by (simp add: callProvider_def)
  qed
  have c4: "callAnthropic N model = callProvider N Anthropic model"
    "callOpenAI N model = callProvider N OpenAI model"
    by (simp_all add: callAnthropic_def callOpenAI_def)
  from c1[of a ev] c2 c3 c4 show ?thesis by blast
qed

theorem auth_failure_is_never_retried_witness:
  "(1::int) \<le> maxRetries
   \<and> fetchAt (always (plainResponse 401 ''Unauthorized'')) 1 = Response (plainResponse 401 ''Unauthorized'')
   \<and> status (plainResponse 401 ''Unauthorized'') = 401
   \<and> supportsModel Anthropic ClaudeOpus45 \<and> supportsModel OpenAI ChatGPT52
   \<and> callAnthropic (always (plainResponse 401 ''Unauthorized'')) ClaudeOpus45
        = (Inl (ApiError Anthropic 401 ''Unauthorized''), [Fetch 1])
   \<and> callOpenAI (always (plainResponse 401 ''Unauthorized'')) ChatGPT52
        = (Inl (ApiError OpenAI 401 ''Unauthorized''), [Fetch 1])
   \<and> last (snd (callAnthropic (scriptedNetwork [plainResponse 429 ''Too Many Requests'',
          plainResponse 403 ''Forbidden'']) ClaudeOpus45)) = Fetch 2"
proof -
  let ?r = "plainResponse 401 ''Unauthorized''"
  let ?N = "scriptedNetwork [plainResponse 429 ''Too Many Requests'', plainResponse 403 ''Forbidden'']"
  have f: "fetchAt (always ?r) 1 = Response ?r" by (simp add: always_def)
  have s: "status ?r = 401" by (simp add: plainResponse_def)
  have m: "errorMessageOf ?r = ''Unauthorized''" "errorBody ?r \<noteq> JsonNull"
    by (simp_all add: errorMessageOf_def plainResponse_def)
  have sup: "supportsModel Anthropic ClaudeOpus45" "supportsModel OpenAI ChatGPT52"
    by (simp_all add: supportsModel_def)
  have one: "(1::int) \<le> maxRetries" by (simp add: maxRetries_def)
  from auth_failure_is_never_retried[of 1 "always ?r" ?r Anthropic ClaudeOpus45 "[]"] f s m sup
  have a: "callAnthropic (always ?r) ClaudeOpus45 = (Inl (ApiError Anthropic 401 ''Unauthorized''), [Fetch 1])"
    by simp
  from auth_failure_is_never_retried[of 1 "always ?r" ?r OpenAI ChatGPT52 "[]"] f s m sup
  have b: "callOpenAI (always ?r) ChatGPT52 = (Inl (ApiError OpenAI 401 ''Unauthorized''), [Fetch 1])"
    by simp
  have run: "callProvider ?N Anthropic ClaudeOpus45
      = (fst (callProvider ?N Anthropic ClaudeOpus45), snd (callProvider ?N Anthropic ClaudeOpus45))"
    by simp
  have ev: "Fetch 2 \<in> set (snd (callProvider ?N Anthropic ClaudeOpus45))"
    by code_simp
  have f2: "fetchAt ?N 2 = Response (plainResponse 403 ''Forbidden'')"
    "status (plainResponse 403 ''Forbidden'') = 403"
    by (simp_all add: scriptedNetwork_def plainResponse_def)
  from auth_failure_is_never_retried[of _ ?N "plainResponse 403 ''Forbidden''" Anthropic ClaudeOpus45 _
      "fst (callProvider ?N Anthropic ClaudeOpus45)" "snd (callProvider ?N Anthropic ClaudeOpus45)" 2]
    run ev f2
  have c: "last (snd (callAnthropic ?N ClaudeOpus45)) = Fetch 2"
    by (simp add: callAnthropic_def)
  from one f s sup a b c show ?thesis by blast
qed

text \<open>
  C8, as stated, fails for server-side failures. Five responses with status 503 exhaust the
  ceiling, and the error thrown is the provider API error of the last response, which names
  the status and the message and no attempt count.
\<close>

theorem server_error_exhaustion_names_no_attempts_counterexample:
  "fetches (snd (callAnthropic (always (plainResponse 503 ''Service Unavailable'')) ClaudeOpus45)) = 5
   \<and> fst (callAnthropic (always (plainResponse 503 ''Service Unavailable'')) ClaudeOpus45)
        = Inl (ApiError Anthropic 503 ''Service Unavailable'')
   \<and> message (ApiError Anthropic 503 ''Service Unavailable'')
        = ''Anthropic API error: 503 - Service Unavailable''
   \<and> attemptsNamed (ApiError Anthropic 503 ''Service Unavailable'') = None"
  by code_simp

text \<open>
  C8, amended. Every call makes at most 5 attempts. A response is retried, while attempts
  are left, when its status is a rate-limit status (429 or 529), or is 500 or above with an
  error body that is not JSON \<open>null\<close>; a response of status 500 or above (not 529) whose
  body is JSON \<open>null\<close> ends the call at once with the \<open>TypeError\<close> of reading it. When
  each of the first four attempts is answered by a response that is retried, the fifth
  attempt is made and decides: on a rate-limit status the call fails with the error
  \<open>rate limit exceeded after 5 attempts\<close>, which names the attempt count; on another
  status of 500 or above it fails with the provider API error of that response (or that
  \<open>TypeError\<close>), which names no attempt count.
\<close>

theorem attempts_bounded_and_exhaustion_errors:
  "fetches (snd (callProvider N p model)) \<le> 5
   \<and> (a \<le> maxRetries \<and> fetchAt N a = Response r \<and> \<not> isRateLimitError (status r)
        \<and> 500 \<le> status r \<and> errorBody r = JsonNull
      \<longrightarrow> callLoop N p model a ev = (Inl NullErrorBody, ev @ [Fetch a]))
   \<and> (supportsModel p model
        \<and> (\<forall>k. 1 \<le> k \<and> k < 5 \<longrightarrow> (\<exists>r. fetchAt N k = Response r \<and> retryable r))
        \<and> fetchAt N 5 = Response r5 \<and> isRateLimitError (status r5)
      \<longrightarrow> fst (callProvider N p model) = Inl (RateLimitExceeded p 5)
        \<and> fetches (snd (callProvider N p model)) = 5
        \<and> attemptsNamed (RateLimitExceeded p 5) = Some 5
        \<and> message (RateLimitExceeded p 5)
            = providerName p @ '' rate limit exceeded after 5 attempts. Please wait and try again.'')
   \<and> (supportsModel p model
        \<and> (\<forall>k. 1 \<le> k \<and> k < 5 \<longrightarrow> (\<exists>r. fetchAt N k = Response r \<and> retryable r))
        \<and> fetchAt N 5 = Response r5 \<and> \<not> isRateLimitError (status r5) \<and> 500 \<le> status r5
      \<longrightarrow> fst (callProvider N p model)
            = Inl (if errorBody r5 = JsonNull then NullErrorBody
                   else ApiError p (status r5) (errorMessageOf r5))
        \<and> fetches (snd (callProvider N p model)) = 5
        \<and> attemptsNamed (if errorBody r5 = JsonNull then NullErrorBody
                          else ApiError p (status r5) (errorMessageOf r5)) = None)
   \<and> (retryable r \<longleftrightarrow> status r = 429 \<or> status r = 529
          \<or> (500 \<le> status r \<and> errorBody r \<noteq> JsonNull))"
proof -
  have run: "fst (callProvider N p model) = finalAttempt p model r5
      \<and> fetches (snd (callProvider N p model)) = 5"
    if "supportsModel p model"
      "\<forall>k. 1 \<le> k \<and> k < 5 \<longrightarrow> (\<exists>r. fetchAt N k = Response r \<and> retryable r)"
      "fetchAt N 5 = Response r5"
  proof -
    have le: "(1::int) \<le> maxRetries" by (simp add: maxRetries_def)
    from that(2) have all: "\<forall>k. 1 \<le> k \<and> k < maxRetries \<longrightarrow> (\<exists>r. fetchAt N k = Response r \<and> retryable r)"
      by (simp add: maxRetries_def)
    from that(3) have last: "fetchAt N maxRetries = Response r5" by (simp add: maxRetries_def)
    from callLoop_exhaust[OF le all last, of p model "[]"] obtain new where
      "callLoop N p model 1 [] = (finalAttempt p model r5, [] @ new)"
      "fetches new = nat (maxRetries + 1 - 1)" by blast
    with that(1) show ?thesis by (simp add: callProvider_def maxRetries_def)
  qed
  have msg: "message (RateLimitExceeded p 5)
            = providerName p @ '' rate limit exceeded after 5 attempts. Please wait and try again.''"
  proof -
    have "showInt 5 = ''5''" by code_simp
    then show ?thesis by simp
  qed
  have rl: "finalAttempt p model r5 = Inl (RateLimitExceeded p 5)" if "isRateLimitError (status r5)"
    using finalAttempt_rate_limit[OF that] by (simp add: maxRetries_def)
  note se = finalAttempt_server_error[of r5 p model]
  have nb: "callLoop N p model a ev = (Inl NullErrorBody, ev @ [Fetch a])"
    if "a \<le> maxRetries \<and> fetchAt N a = Response r \<and> \<not> isRateLimitError (status r)
        \<and> 500 \<le> status r \<and> errorBody r = JsonNull"
    using that by (simp add: callLoop.simps[of N p model a ev] ok_def Let_def)
  have rt: "retryable r \<longleftrightarrow> status r = 429 \<or> status r = 529
          \<or> (500 \<le> status r \<and> errorBody r \<noteq> JsonNull)"
    by (simp add: retryable_def isRateLimitError_def)
  have an: "attemptsNamed (if errorBody r5 = JsonNull then NullErrorBody
                          else ApiError p (status r5) (errorMessageOf r5)) = None"
    by simp
  from callProvider_bounded[of N p model] run rl se msg nb rt an show ?thesis by simp
qed

theorem attempts_bounded_and_exhaustion_errors_witness:
  "supportsModel OpenAI ChatGPT52
   \<and> fetchAt (always (plainResponse 429 ''Too Many Requests'')) 5
        = Response (plainResponse 429 ''Too Many Requests'')
   \<and> retryable (plainResponse 429 ''Too Many Requests'')
   \<and> isRateLimitError (status (plainResponse 429 ''Too Many Requests''))
   \<and> fst (callProvider (always (plainResponse 429 ''Too Many Requests'')) OpenAI ChatGPT52)
        = Inl (RateLimitExceeded OpenAI 5)
   \<and> fetches (snd (callProvider (always (plainResponse 429 ''Too Many Requests'')) OpenAI ChatGPT52)) = 5
   \<and> message (RateLimitExceeded OpenAI 5)
        = ''OpenAI rate limit exceeded after 5 attempts. Please wait and try again.''
   \<and> fetchAt (always (plainResponse 500 ''Internal Server Error'')) 5
        = Response (plainResponse 500 ''Internal Server Error'')
   \<and> retryable (plainResponse 500 ''Internal Server Error'')
   \<and> \<not> isRateLimitError (status (plainResponse 500 ''Internal Server Error''))
   \<and> fst (callProvider (always (plainResponse 500 ''Internal Server Error'')) OpenAI ChatGPT52)
        = Inl (ApiError OpenAI 500 ''Internal Server Error'')
   \<and> callLoop (always ((plainResponse 500 ''Internal Server Error'')\<lparr>errorBody := JsonNull\<rparr>))
        OpenAI ChatGPT52 1 [] = (Inl NullErrorBody, [Fetch 1])"
proof -
  let ?a = "plainResponse 429 ''Too Many Requests''"
  let ?b = "plainResponse 500 ''Internal Server Error''"
  let ?c = "?b\<lparr>errorBody := JsonNull\<rparr>"
  have s: "supportsModel OpenAI ChatGPT52" by (simp add: supportsModel_def)
  have a: "\<forall>k. 1 \<le> k \<and> k < 5 \<longrightarrow> (\<exists>r. fetchAt (always ?a) k = Response r \<and> retryable r)"
    "fetchAt (always ?a) 5 = Response ?a" "isRateLimitError (status ?a)"
    by (simp_all add: always_def plainResponse_def retryable_def isRateLimitError_def)
  have b: "\<forall>k. 1 \<le> k \<and> k < 5 \<longrightarrow> (\<exists>r. fetchAt (always ?b) k = Response r \<and> retryable r)"
    "fetchAt (always ?b) 5 = Response ?b" "\<not> isRateLimitError (status ?b)" "500 \<le> status ?b"
    "status ?b = 500" "errorMessageOf ?b = ''Internal Server Error''" "errorBody ?b \<noteq> JsonNull"
    by (simp_all add: always_def plainResponse_def retryable_def isRateLimitError_def
        errorMessageOf_def)
  have cc: "(1::int) \<le> maxRetries" "fetchAt (always ?c) 1 = Response ?c"
    "\<not> isRateLimitError (status ?c)" "500 \<le> status ?c" "errorBody ?c = JsonNull"
    by (simp_all add: always_def plainResponse_def isRateLimitError_def maxRetries_def)
  from attempts_bounded_and_exhaustion_errors[of "always ?a" OpenAI ChatGPT52 _ _ _ ?a] s a
  have ra: "fst (callProvider (always ?a) OpenAI ChatGPT52) = Inl (RateLimitExceeded OpenAI 5)"
    "fetches (snd (callProvider (always ?a) OpenAI ChatGPT52)) = 5"
    "message (RateLimitExceeded OpenAI 5)
        = ''OpenAI rate limit exceeded after 5 attempts. Please wait and try again.''"
    by simp_all
  from attempts_bounded_and_exhaustion_errors[of "always ?b" OpenAI ChatGPT52 _ _ _ ?b] s b
  have rb: "fst (callProvider (always ?b) OpenAI ChatGPT52) = Inl (ApiError OpenAI 500 ''Internal Server Error'')"
    by simp
  from attempts_bounded_and_exhaustion_errors[of "always ?c" OpenAI ChatGPT52 1 ?c "[]"] cc
  have rc: "callLoop (always ?c) OpenAI ChatGPT52 1 [] = (Inl NullErrorBody, [Fetch 1])"
    by simp
  have c: "retryable ?a" "retryable ?b"
    by (simp_all add: plainResponse_def retryable_def isRateLimitError_def)
  from s a b c ra rb rc show ?thesis by blast
qed

section \<open>Checkpoints: the claim\<close>

lemma storage_keys_distinct:
  "CONFIG \<noteq> PROGRESS" "CONFIG \<noteq> ARTIFACTS" "CONFIG \<noteq> MODULE_NAME"
  "PROGRESS \<noteq> ARTIFACTS" "PROGRESS \<noteq> MODULE_NAME" "ARTIFACTS \<noteq> MODULE_NAME"
  by (simp_all add: CONFIG_def PROGRESS_def ARTIFACTS_def MODULE_NAME_def)

lemma jsonForm_configWithoutKeys: "jsonForm P (configWithoutKeys c) = configWithoutKeys c"
  by (simp add: configWithoutKeys_def)

lemma jsonForm_progressValue: "jsonForm P (progressValue p) = progressValue p"
proof -
  have strs: "map (jsonForm P) (map JStr xs) = map JStr xs" for xs
    by (induction xs) simp_all
  show ?thesis
    by (cases "currentAgent p"; cases "currentArtifact p"; cases "progressError p")
      (simp_all add: progressValue_def optionalField_def nullable_def strs)
qed

lemma revive_saved_artifact:
  assumes "Date_parse P (toISOString P (createdAt a)) = Instant (createdAt a)"
  shows "reviveArtifact P (jsonForm P (artifactValue a)) = Some (artifactValue a)"
  using assms by (simp add: artifactValue_def)

lemma revive_saved_artifacts:
  assumes "\<forall>a \<in> set arts. Date_parse P (toISOString P (createdAt a)) = Instant (createdAt a)"
  shows "allSome (map (reviveArtifact P) (map (jsonForm P) (map artifactValue arts)))
     = Some (map artifactValue arts)"
  using assms
proof (induction arts)
  case Nil
  show ?case by simp
next
  case (Cons a arts)
  then have "reviveArtifact P (jsonForm P (artifactValue a)) = Some (artifactValue a)"
    by (intro revive_saved_artifact) simp
  with Cons show ?case by simp
qed

lemma saveState_accepted:
  assumes "\<forall>st k v. accepts P st k v"
  shows "saveState P config progress arts name st =
     st(CONFIG \<mapsto> JSON_stringify P (configWithoutKeys config),
        PROGRESS \<mapsto> JSON_stringify P (progressValue progress),
        ARTIFACTS \<mapsto> JSON_stringify P (JArr (map artifactValue arts)),
        MODULE_NAME \<mapsto> name)"
  using assms by (simp add: saveState_def setItem_def)

text \<open>
  C5, as stated, fails for the empty run name: \<open>loadState\<close> treats an empty item like a
  missing one. After saving a checkpoint with the run name \<open>''\<close> the load returns nothing.
\<close>

theorem load_after_save_with_empty_name_counterexample:
  "loadState referencePlatform 0
     (saveState referencePlatform sampleConfig sampleProgress sampleArtifacts '''' Map.empty) = None"
  by (simp add: loadState_def saveState_accepted referencePlatform_def storage_keys_distinct)

text \<open>
  C5, amended. On a platform whose JSON functions bring back the three values written
  and whose date functions bring back the creation times, with a store that accepts the
  writes, loading right after saving a checkpoint with a non-empty run name returns the
  configuration without its credentials, the progress with its stage index, the artifact
  list with its dates and the run name, as they were saved. No field of the saved
  configuration is named \<open>apiKeys\<close>, and the store after saving does not depend on the
  credentials.
\<close>

theorem load_after_save_returns_what_was_saved:
  assumes "\<forall>v \<in> {configWithoutKeys config, progressValue progress, JArr (map artifactValue arts)}.
             JSON_parse P (JSON_stringify P v) = Some (jsonForm P v) \<and> JSON_stringify P v \<noteq> ''''"
    and "\<forall>a \<in> set arts. Date_parse P (toISOString P (createdAt a)) = Instant (createdAt a)"
    and "\<forall>st k v. accepts P st k v"
    and "name \<noteq> ''''"
  shows "loadState P now (saveState P config progress arts name st)
           = Some \<lparr>persistedConfig = configWithoutKeys config,
                   persistedProgress = progressValue progress,
                   persistedArtifacts = JArr (map artifactValue arts),
                   persistedModuleName = name, persistedTimestamp = now\<rparr>
     \<and> field ''currentStage'' (progressValue progress) = Some (JNum (currentStage progress))
     \<and> ''apiKeys'' \<notin> set (fieldNames (configWithoutKeys config))
     \<and> saveState P (config\<lparr>apiKeys := keys\<rparr>) progress arts name st
          = saveState P config progress arts name st"
proof -
  from assms(1) have
    c: "JSON_parse P (JSON_stringify P (configWithoutKeys config)) = Some (configWithoutKeys config)"
       "JSON_stringify P (configWithoutKeys config) \<noteq> []"
    and p: "JSON_parse P (JSON_stringify P (progressValue progress)) = Some (progressValue progress)"
       "JSON_stringify P (progressValue progress) \<noteq> []"
    and a: "JSON_parse P (JSON_stringify P (JArr (map artifactValue arts)))
              = Some (JArr (map (jsonForm P) (map artifactValue arts)))"
       "JSON_stringify P (JArr (map artifactValue arts)) \<noteq> []"
    by (simp_all add: jsonForm_configWithoutKeys jsonForm_progressValue)
  have r: "reviveArtifacts P (JArr (map (jsonForm P) (map artifactValue arts)))
      = Some (JArr (map artifactValue arts))"
    using revive_saved_artifacts[OF assms(2)] by simp
  have load: "loadState P now (saveState P config progress arts name st)
           = Some \<lparr>persistedConfig = configWithoutKeys config,
                   persistedProgress = progressValue progress,
                   persistedArtifacts = JArr (map artifactValue arts),
                   persistedModuleName = name, persistedTimestamp = now\<rparr>"
    unfolding saveState_accepted[OF assms(3)] loadState_def
    using c p a r assms(4) storage_keys_distinct by simp
  have stage: "field ''currentStage'' (progressValue progress) = Some (JNum (currentStage progress))"
    by (simp add: progressValue_def)
  have nokeys: "''apiKeys'' \<notin> set (fieldNames (configWithoutKeys config))"
    by (simp add: configWithoutKeys_def)
  have same: "saveState P (config\<lparr>apiKeys := keys\<rparr>) progress arts name st
          = saveState P config progress arts name st"
    by (simp add: saveState_def configWithoutKeys_def)
  from load stage nokeys same show ?thesis by blast
qed

lemma sample_json_roundtrip:
  "parseJson (printJson (configWithoutKeys sampleConfig))
     = Some (jsonForm referencePlatform (configWithoutKeys sampleConfig))"
  "parseJson (printJson (progressValue sampleProgress))
     = Some (jsonForm referencePlatform (progressValue sampleProgress))"
  "parseJson (printJson (JArr (map artifactValue sampleArtifacts)))
     = Some (jsonForm referencePlatform (JArr (map artifactValue sampleArtifacts)))"
  "printJson (configWithoutKeys sampleConfig) \<noteq> ''''"
  "printJson (progressValue sampleProgress) \<noteq> ''''"
  "printJson (JArr (map artifactValue sampleArtifacts)) \<noteq> ''''"
  by code_simp+

lemma sample_dates_roundtrip:
  "\<forall>a \<in> set sampleArtifacts. parseIso (isoString (createdAt a)) = Instant (createdAt a)"
proof -
  have "parseIso (isoString 1767225600123) = Instant 1767225600123"
    by code_simp
  moreover have "parseIso (isoString 1767229261000) = Instant 1767229261000"
    by code_simp
  ultimately show ?thesis
    by (simp add: sampleArtifacts_def mkArtifact_def)
qed

theorem load_after_save_returns_what_was_saved_witness:
  "loadState referencePlatform 99
     (saveState referencePlatform sampleConfig sampleProgress sampleArtifacts ''todo'' Map.empty)
     = Some \<lparr>persistedConfig = configWithoutKeys sampleConfig,
             persistedProgress = progressValue sampleProgress,
             persistedArtifacts = JArr (map artifactValue sampleArtifacts),
             persistedModuleName = ''todo'', persistedTimestamp = 99\<rparr>
   \<and> field ''currentStage'' (progressValue sampleProgress) = Some (JNum 2)
   \<and> ''apiKeys'' \<notin> set (fieldNames (configWithoutKeys sampleConfig))"
proof -
  have json: "\<forall>v \<in> {configWithoutKeys sampleConfig, progressValue sampleProgress,
                    JArr (map artifactValue sampleArtifacts)}.
             JSON_parse referencePlatform (JSON_stringify referencePlatform v)
               = Some (jsonForm referencePlatform v)
             \<and> JSON_stringify referencePlatform v \<noteq> ''''"
    using sample_json_roundtrip by (simp add: referencePlatform_def)
  have dates: "\<forall>a \<in> set sampleArtifacts.
      Date_parse referencePlatform (toISOString referencePlatform (createdAt a)) = Instant (createdAt a)"
    using sample_dates_roundtrip by (simp add: referencePlatform_def)
  have acc: "\<forall>st k v. accepts referencePlatform st k v"
    by (simp add: referencePlatform_def)
  have name: "''todo'' \<noteq> ''''" by simp
  have stage: "currentStage sampleProgress = 2" by (simp add: sampleProgress_def)
  from load_after_save_returns_what_was_saved[OF json dates acc name, of 99 Map.empty] stage
  show ?thesis by simp
qed

end
